theory Spec2Isabelle
  imports Complex_Main "HOL-Library.Multiset"
begin

section \<open>Vectors and boxes\<close>

text \<open>
  The solver of \<open>src/sim/SPH3d.h\<close> works on single-precision vectors. Floating-point numbers
  are modelled by exact reals; the conversion \<open>int(std::floor(x))\<close> is \<open>floorInt\<close>, with the
  range of \<open>int\<close> written out, and arithmetic on \<open>int\<close> cell coordinates is exact (it stays
  inside \<open>int\<close> for coordinates of the grid). Slots and counters (\<open>size_t\<close>,
  \<open>uint32_t\<close>) are naturals, for particle sets of fewer than \<open>2\<^sup>3\<^sup>2\<close> particles; where a
  signed value is converted to an unsigned one (\<open>indexLinear\<close>, the bound of the collision
  loop) the wrap-around is written out.
\<close>

datatype Vector3f = Vector3f (vx: real) (vy: real) (vz: real)

datatype Vector3i = Vector3i (ix: int) (iy: int) (iz: int)

record Box3f =
  box_min :: Vector3f
  box_max :: Vector3f

definition vadd :: "Vector3f \<Rightarrow> Vector3f \<Rightarrow> Vector3f" where
  "vadd a b = Vector3f (vx a + vx b) (vy a + vy b) (vz a + vz b)"

definition vsub :: "Vector3f \<Rightarrow> Vector3f \<Rightarrow> Vector3f" where
  "vsub a b = Vector3f (vx a - vx b) (vy a - vy b) (vz a - vz b)"

definition vscale :: "real \<Rightarrow> Vector3f \<Rightarrow> Vector3f" where
  "vscale s a = Vector3f (s * vx a) (s * vy a) (s * vz a)"

definition vneg :: "Vector3f \<Rightarrow> Vector3f" where
  "vneg a = Vector3f (- vx a) (- vy a) (- vz a)"

definition dot :: "Vector3f \<Rightarrow> Vector3f \<Rightarrow> real" where
  "dot a b = vx a * vx b + vy a * vy b + vz a * vz b"

definition squaredNorm :: "Vector3f \<Rightarrow> real" where
  "squaredNorm a = dot a a"

definition splat :: "real \<Rightarrow> Vector3f" where
  "splat s = Vector3f s s s"

definition extents :: "Box3f \<Rightarrow> Vector3f" where
  "extents b = vsub (box_max b) (box_min b)"

definition sqr :: "real \<Rightarrow> real" where
  "sqr a = a * a"

definition cube :: "real \<Rightarrow> real" where
  "cube a = a * a * a"

section \<open>Smoothing kernels\<close>

record Kernel =
  kh :: real
  kh2 :: real
  halfh :: real
  poly6Constant :: real
  poly6GradConstant :: real
  poly6LaplaceConstant :: real
  spikyConstant :: real
  spikyGradConstant :: real
  spikyLaplaceConstant :: real
  viscosityLaplaceConstant :: real
  surfaceTensionConstant :: real
  surfaceTensionOffset :: real

text \<open>\<open>Kernel::init\<close>; \<open>std::pow(h, 9.f)\<close> is the ninth power.\<close>

definition Kernel_init :: "real \<Rightarrow> Kernel" where
  "Kernel_init hh =
     \<lparr> kh = hh,
       kh2 = sqr hh,
       halfh = 0.5 * hh,
       poly6Constant = 365 / (64 * pi * hh ^ 9),
       poly6GradConstant = - 945 / (32 * pi * hh ^ 9),
       poly6LaplaceConstant = - 945 / (32 * pi * hh ^ 9),
       spikyConstant = 15 / (pi * hh ^ 6),
       spikyGradConstant = - 45 / (pi * hh ^ 6),
       spikyLaplaceConstant = - 90 / (pi * hh ^ 6),
       viscosityLaplaceConstant = 45 / (pi * hh ^ 6),
       surfaceTensionConstant = 32 / (pi * hh ^ 9),
       surfaceTensionOffset = - (hh ^ 6) / 64 \<rparr>"

definition poly6 :: "Kernel \<Rightarrow> real \<Rightarrow> real" where
  "poly6 k r2 = cube (kh2 k - r2)"

definition poly6Grad :: "Kernel \<Rightarrow> Vector3f \<Rightarrow> real \<Rightarrow> Vector3f" where
  "poly6Grad k r r2 = vscale (sqr (kh2 k - r2)) r"

definition spikyGrad :: "Kernel \<Rightarrow> Vector3f \<Rightarrow> real \<Rightarrow> Vector3f" where
  "spikyGrad k r rn = vscale (1 / rn) (vscale (sqr (kh k - rn)) r)"

definition viscosityLaplace :: "Kernel \<Rightarrow> real \<Rightarrow> real" where
  "viscosityLaplace k rn = kh k - rn"

definition surfaceTension :: "Kernel \<Rightarrow> real \<Rightarrow> real" where
  "surfaceTension k rn =
     (if rn < halfh k then 2 * cube (kh k - rn) * cube rn + surfaceTensionOffset k
      else cube (kh k - rn) * cube rn)"

text \<open>
  The mass of the shape term \<open>(h\<^sup>2 - r\<^sup>2)\<^sup>3\<close> over the ball of radius \<open>h\<close>, written with the
  shell primitive: \<open>poly6ShellPrimitive h\<close> has derivative \<open>4 \<pi> r\<^sup>2 (h\<^sup>2 - r\<^sup>2)\<^sup>3\<close> in \<open>r\<close>.
\<close>

definition poly6ShellPrimitive :: "real \<Rightarrow> real \<Rightarrow> real" where
  "poly6ShellPrimitive h r =
     4 * pi * (h ^ 6 * r ^ 3 / 3 - 3 * h ^ 4 * r ^ 5 / 5 + 3 * h ^ 2 * r ^ 7 / 7 - r ^ 9 / 9)"

definition poly6BallMass :: "real \<Rightarrow> real" where
  "poly6BallMass h = poly6ShellPrimitive h h - poly6ShellPrimitive h 0"

section \<open>The uniform grid\<close>

record Grid =
  g_bounds :: Box3f
  cellSize :: real
  invCellSize :: real
  gsize :: Vector3i
  cellOffset :: "nat list"

text \<open>
  Modelled from the spec: \<open>nextPowerOfTwo\<close> is declared in \<open>core/Common.h\<close>, which is not
  part of the sources at hand; the spec describes the per-axis cell count as "the next
  power of two \<ge> \<lfloor>extent/cellSize\<rfloor>+1".
\<close>

function nextPowerOfTwo :: "int \<Rightarrow> int" where
  "nextPowerOfTwo n = (if n \<le> 1 then 1 else 2 * nextPowerOfTwo ((n + 1) div 2))"
  by pat_completeness auto
termination
  by (relation "measure nat") auto

text \<open>Conversions \<open>int \<rightarrow> size_t\<close> (64 bit) and \<open>size_t \<rightarrow> uint32_t\<close>.\<close>

definition to_size_t :: "int \<Rightarrow> nat" where
  "to_size_t v = nat (v mod 2 ^ 64)"

definition to_uint32 :: "nat \<Rightarrow> nat" where
  "to_uint32 n = n mod 2 ^ 32"

definition sizeProd :: "Grid \<Rightarrow> int" where
  "sizeProd g = ix (gsize g) * iy (gsize g) * iz (gsize g)"

text \<open>
  \<open>int(std::floor(x))\<close>. Inside the range of \<open>int\<close> the result is the floor. Outside it the
  conversion is undefined in the language; the value taken here is the one the conversion
  instruction of the build target delivers for every unrepresentable operand, \<open>INT_MIN\<close>.
\<close>

definition floorInt :: "real \<Rightarrow> int" where
  "floorInt x = (if - (2 ^ 31) \<le> \<lfloor>x\<rfloor> \<and> \<lfloor>x\<rfloor> < 2 ^ 31 then \<lfloor>x\<rfloor> else - (2 ^ 31))"

text \<open>
  \<open>Grid::init\<close> on a freshly constructed grid: \<open>resize\<close> of the empty offset vector gives
  \<open>_size.prod() + 1\<close> zeros.
\<close>

definition Grid_init :: "Box3f \<Rightarrow> real \<Rightarrow> Grid" where
  "Grid_init bounds cs =
     (let sz = Vector3i (nextPowerOfTwo (floorInt (vx (extents bounds) / cs) + 1))
                        (nextPowerOfTwo (floorInt (vy (extents bounds) / cs) + 1))
                        (nextPowerOfTwo (floorInt (vz (extents bounds) / cs) + 1))
      in \<lparr> g_bounds = bounds, cellSize = cs, invCellSize = 1 / cs, gsize = sz,
           cellOffset = replicate (to_size_t (ix sz * iy sz * iz sz + 1)) 0 \<rparr>)"

definition index :: "Grid \<Rightarrow> Vector3f \<Rightarrow> Vector3i" where
  "index g pos =
     Vector3i (floorInt ((vx pos - vx (box_min (g_bounds g))) * invCellSize g))
              (floorInt ((vy pos - vy (box_min (g_bounds g))) * invCellSize g))
              (floorInt ((vz pos - vz (box_min (g_bounds g))) * invCellSize g))"

definition linearOf :: "Grid \<Rightarrow> Vector3i \<Rightarrow> int" where
  "linearOf g i = iz i * (ix (gsize g) * iy (gsize g)) + iy i * ix (gsize g) + ix i"

definition indexLinear :: "Grid \<Rightarrow> Vector3f \<Rightarrow> nat" where
  "indexLinear g pos = to_size_t (linearOf g (index g pos))"

text \<open>
  \<open>Grid::update\<close>, first loop: \<open>uint32_t index = indexLinear(positions[i])\<close> is stored
  and counted for every position. A read or write outside a vector is the result \<open>None\<close>.
\<close>

definition cellOf :: "Grid \<Rightarrow> Vector3f \<Rightarrow> nat" where
  "cellOf g pos = to_uint32 (indexLinear g pos)"

function countLoop ::
  "Grid \<Rightarrow> Vector3f list \<Rightarrow> nat \<Rightarrow> nat list \<Rightarrow> nat list \<Rightarrow> (nat list \<times> nat list) option" where
  "countLoop g positions i indices cellCount =
     (if i < length positions then
        (if i < length indices \<and> cellOf g (positions ! i) < length cellCount
         then countLoop g positions (i + 1)
                (indices[i := cellOf g (positions ! i)])
                (cellCount[cellOf g (positions ! i) := cellCount ! cellOf g (positions ! i) + 1])
         else None)
      else Some (indices, cellCount))"
  by pat_completeness auto
termination
  by (relation "measure (\<lambda>(g, positions, i, indices, cellCount). length positions - i)") auto

text \<open>Second loop: running totals into \<open>cellIndex\<close> and \<open>_cellOffset\<close>.\<close>

function prefixLoop ::
  "nat list \<Rightarrow> nat \<Rightarrow> nat \<Rightarrow> nat list \<Rightarrow> nat list \<Rightarrow> (nat \<times> nat list \<times> nat list) option" where
  "prefixLoop cellCount i idx cellIndex offs =
     (if i < length cellIndex then
        (if i < length offs \<and> i < length cellCount
         then prefixLoop cellCount (i + 1) (idx + cellCount ! i)
                (cellIndex[i := idx]) (offs[i := idx])
         else None)
      else Some (idx, cellIndex, offs))"
  by pat_completeness auto
termination
  by (relation "measure (\<lambda>(cellCount, i, idx, cellIndex, offs). length cellIndex - i)") auto

text \<open>
  The condition of the inner \<open>while\<close>:
  \<open>i >= cellIndex[indices[i]] || i < _cellOffset[indices[i]]\<close>, for \<open>c = indices[i]\<close>, with
  the short-circuit of \<open>||\<close>.
\<close>

definition misplaced :: "nat \<Rightarrow> nat list \<Rightarrow> nat list \<Rightarrow> nat \<Rightarrow> bool option" where
  "misplaced i cellIndex offs c =
     (if c < length cellIndex then
        (if i \<ge> cellIndex ! c then Some True
         else if c < length offs then Some (i < offs ! c) else None)
      else None)"

definition swapAt :: "'a list \<Rightarrow> nat \<Rightarrow> nat \<Rightarrow> 'a list" where
  "swapAt xs i j = (xs[i := xs ! j])[j := xs ! i]"

text \<open>
  Third loop: the outer \<open>for\<close> over \<open>i\<close> and the inner \<open>while\<close> are one recursion; the
  caller's \<open>swap\<close> callback acts on the caller's state \<open>s\<close>.
\<close>

function sortLoop ::
  "nat list \<Rightarrow> (nat \<Rightarrow> nat \<Rightarrow> 's \<Rightarrow> 's) \<Rightarrow> nat \<Rightarrow> nat list \<Rightarrow> nat list \<Rightarrow> 's
     \<Rightarrow> (nat list \<times> nat list \<times> 's) option" where
  "sortLoop offs swap i cellIndex indices s =
     (if i < length indices then
        (if misplaced i cellIndex offs (indices ! i) = None then None
         else if misplaced i cellIndex offs (indices ! i) = Some True then
           (if cellIndex ! (indices ! i) < length indices
            then sortLoop offs swap i
                   (cellIndex[indices ! i := cellIndex ! (indices ! i) + 1])
                   (swapAt indices i (cellIndex ! (indices ! i)))
                   (swap i (cellIndex ! (indices ! i)) s)
            else None)
         else sortLoop offs swap (i + 1) cellIndex indices s)
      else Some (cellIndex, indices, s))"
  by pat_completeness auto

definition sortMeasure :: "nat \<Rightarrow> nat list \<Rightarrow> nat list \<Rightarrow> nat" where
  "sortMeasure i cellIndex indices =
     (length indices - i) + sum_list (map (\<lambda>v. length indices - v) cellIndex)"

lemma sum_list_map_update_less:
  fixes f :: "nat \<Rightarrow> nat"
  assumes "c < length xs" and "f v < f (xs ! c)"
  shows "sum_list (map f (xs[c := v])) < sum_list (map f xs)"
proof -
  have "sum_list ((map f xs)[c := f v]) = sum_list (map f xs) + f v - (map f xs) ! c"
    using assms(1) by (simp add: sum_list_update)
  moreover have "(map f xs) ! c \<le> sum_list (map f xs)"
    using assms(1) by (simp add: member_le_sum_list)
  ultimately show ?thesis
    using assms by (simp add: map_update)
qed

lemma sortMeasure_swap:
  assumes "misplaced i cellIndex offs (indices ! i) = Some True"
    and "cellIndex ! (indices ! i) < length indices"
  shows "sortMeasure i (cellIndex[indices ! i := cellIndex ! (indices ! i) + 1])
           (swapAt indices i (cellIndex ! (indices ! i)))
         < sortMeasure i cellIndex indices"
proof -
  from assms(1) have c: "indices ! i < length cellIndex"
    by (auto simp: misplaced_def split: if_splits)
  have "sum_list (map (\<lambda>v. length indices - v) (cellIndex[indices ! i := cellIndex ! (indices ! i) + 1]))
        < sum_list (map (\<lambda>v. length indices - v) cellIndex)"
    using c assms(2) by (intro sum_list_map_update_less) auto
  then show ?thesis
    by (simp add: sortMeasure_def swapAt_def)
qed

termination sortLoop
  apply (relation "measure (\<lambda>(offs, swap, i, cellIndex, indices, s). sortMeasure i cellIndex indices)")
  subgoal by simp
  subgoal for offs swap i cellIndex indices s
    using sortMeasure_swap [of i cellIndex offs indices] by simp
  subgoal by (simp add: sortMeasure_def)
  done

text \<open>
  \<open>Grid::update\<close>. The positions are read in the first loop only, so the callback may
  reorder the caller's own position array. \<open>_cellOffset.back() = index\<close> needs a
  non-empty offset vector.
\<close>

definition Grid_update ::
  "Grid \<Rightarrow> Vector3f list \<Rightarrow> (nat \<Rightarrow> nat \<Rightarrow> 's \<Rightarrow> 's) \<Rightarrow> 's \<Rightarrow> (Grid \<times> 's) option" where
  "Grid_update g positions swap s =
     (case countLoop g positions 0 (replicate (length positions) 0)
             (replicate (to_size_t (sizeProd g)) 0) of
        None \<Rightarrow> None
      | Some (indices, cellCount) \<Rightarrow>
          (case prefixLoop cellCount 0 0 (replicate (to_size_t (sizeProd g)) 0) (cellOffset g) of
             None \<Rightarrow> None
           | Some (idx, cellIndex, offs) \<Rightarrow>
               (if offs = [] then None
                else (case sortLoop (offs[length offs - 1 := idx]) swap 0 cellIndex indices s of
                        None \<Rightarrow> None
                      | Some (cellIndex', indices', s') \<Rightarrow>
                          Some (g\<lparr>cellOffset := offs[length offs - 1 := idx]\<rparr>, s')))))"

text \<open>
  For the proofs: the swaps of the third loop as a list, in the order the callback is
  called (\<open>sortTrace\<close>), the run of \<open>Grid::update\<close> with that list in place of the
  callback (\<open>gridPlan\<close>), a list of swaps applied to a vector, and the invariant of the
  third loop.
\<close>

function sortTrace ::
  "nat list \<Rightarrow> nat \<Rightarrow> nat list \<Rightarrow> nat list \<Rightarrow> (nat list \<times> nat list \<times> (nat \<times> nat) list) option" where
  "sortTrace offs i cellIndex indices =
     (if i < length indices then
        (if misplaced i cellIndex offs (indices ! i) = None then None
         else if misplaced i cellIndex offs (indices ! i) = Some True then
           (if cellIndex ! (indices ! i) < length indices
            then map_option (\<lambda>(ci, ind, tr). (ci, ind, (i, cellIndex ! (indices ! i)) # tr))
                   (sortTrace offs i
                      (cellIndex[indices ! i := cellIndex ! (indices ! i) + 1])
                      (swapAt indices i (cellIndex ! (indices ! i))))
            else None)
         else sortTrace offs (i + 1) cellIndex indices)
      else Some (cellIndex, indices, []))"
  by pat_completeness auto
termination
  apply (relation "measure (\<lambda>(offs, i, cellIndex, indices). sortMeasure i cellIndex indices)")
  subgoal by simp
  subgoal for offs i cellIndex indices
    using sortMeasure_swap [of i cellIndex offs indices] by simp
  subgoal by (simp add: sortMeasure_def)
  done


definition gridPlan :: "Grid \<Rightarrow> Vector3f list \<Rightarrow> (nat list \<times> nat list \<times> (nat \<times> nat) list) option" where
  "gridPlan g positions =
     (case countLoop g positions 0 (replicate (length positions) 0)
             (replicate (to_size_t (sizeProd g)) 0) of
        None \<Rightarrow> None
      | Some (indices, cellCount) \<Rightarrow>
          (case prefixLoop cellCount 0 0 (replicate (to_size_t (sizeProd g)) 0) (cellOffset g) of
             None \<Rightarrow> None
           | Some (idx, cellIndex, offs) \<Rightarrow>
               (if offs = [] then None
                else (case sortTrace (offs[length offs - 1 := idx]) 0 cellIndex indices of
                        None \<Rightarrow> None
                      | Some (cellIndex', indices', tr) \<Rightarrow>
                          Some (offs[length offs - 1 := idx], indices', tr)))))"


abbreviation swapsOn :: "(nat \<times> nat) list \<Rightarrow> 'a list \<Rightarrow> 'a list" where
  "swapsOn tr xs \<equiv> fold (\<lambda>(a, b) ys. swapAt ys a b) tr xs"


definition sortInv :: "nat list \<Rightarrow> nat \<Rightarrow> nat list \<Rightarrow> nat list \<Rightarrow> bool" where
  "sortInv offs i cidx inds \<longleftrightarrow>
     length offs = length cidx + 1 \<and> i \<le> length inds \<and>
     offs ! (length cidx) = length inds \<and>
     (\<forall>c<length cidx. offs ! c \<le> cidx ! c \<and> cidx ! c \<le> offs ! (c + 1)) \<and>
     (\<forall>k<length inds. inds ! k < length cidx) \<and>
     (\<forall>c<length cidx. \<forall>k. offs ! c \<le> k \<and> k < cidx ! c \<longrightarrow> inds ! k = c) \<and>
     (\<forall>k<i. offs ! (inds ! k) \<le> k \<and> k < cidx ! (inds ! k)) \<and>
     (\<forall>c<length cidx. count_list inds c = offs ! (c + 1) - offs ! c)"


text \<open>
  The grid as \<open>Grid::init\<close> leaves it: positive cell counts whose product fits an \<open>int\<close>,
  and an offset vector with one entry per cell and a final one.
\<close>

definition grid_ok :: "Grid \<Rightarrow> bool" where
  "grid_ok g \<longleftrightarrow>
     0 < ix (gsize g) \<and> 0 < iy (gsize g) \<and> 0 < iz (gsize g) \<and> sizeProd g < 2 ^ 31 \<and>
     length (cellOffset g) = to_size_t (sizeProd g + 1)"

text \<open>A cell coordinate triple lies in the grid; every position of a list does.\<close>

definition inGrid :: "Grid \<Rightarrow> Vector3i \<Rightarrow> bool" where
  "inGrid g c \<longleftrightarrow>
     0 \<le> ix c \<and> ix c < ix (gsize g) \<and> 0 \<le> iy c \<and> iy c < iy (gsize g) \<and>
     0 \<le> iz c \<and> iz c < iz (gsize g)"

definition validCells :: "Grid \<Rightarrow> Vector3f list \<Rightarrow> bool" where
  "validCells g positions = list_all (\<lambda>p. inGrid g (index g p)) positions"

text \<open>
  \<open>Grid::lookup\<close>: the cells of the clamped box in the order of the three nested loops,
  the slots of one cell, and the sequence of slots the visitor is called with.
\<close>

definition lookupCells :: "Grid \<Rightarrow> Vector3f \<Rightarrow> real \<Rightarrow> Vector3i list" where
  "lookupCells g pos radius =
     (let lo = index g (vsub pos (splat radius));
          hi = index g (vadd pos (splat radius));
          mn = Vector3i (max (ix lo) 0) (max (iy lo) 0) (max (iz lo) 0);
          mx = Vector3i (min (ix hi) (ix (gsize g) - 1)) (min (iy hi) (iy (gsize g) - 1))
                        (min (iz hi) (iz (gsize g) - 1))
      in concat (map (\<lambda>z. concat (map (\<lambda>y. map (\<lambda>x. Vector3i x y z) [ix mn..ix mx])
                                        [iy mn..iy mx]))
                     [iz mn..iz mx]))"

definition cellSlots :: "Grid \<Rightarrow> Vector3i \<Rightarrow> nat list" where
  "cellSlots g c =
     [cellOffset g ! to_size_t (linearOf g c) ..< cellOffset g ! (to_size_t (linearOf g c) + 1)]"

definition lookup :: "Grid \<Rightarrow> Vector3f \<Rightarrow> real \<Rightarrow> nat list" where
  "lookup g pos radius = concat (map (cellSlots g) (lookupCells g pos radius))"

text \<open>The query box misses the grid on some axis.\<close>

definition boxOutside :: "Grid \<Rightarrow> Vector3f \<Rightarrow> real \<Rightarrow> bool" where
  "boxOutside g pos radius \<longleftrightarrow>
     (let lo = index g (vsub pos (splat radius)); hi = index g (vadd pos (splat radius))
      in ix hi < 0 \<or> iy hi < 0 \<or> iz hi < 0
         \<or> ix (gsize g) - 1 < ix lo \<or> iy (gsize g) - 1 < iy lo \<or> iz (gsize g) - 1 < iz lo)"

section \<open>The solver\<close>

record Settings =
  stiffness :: real
  viscosity :: real
  gravity :: Vector3f

record WCSPH =
  wcsph_gamma :: real
  wcsph_cs :: real
  wcsph_B :: real
  wcsph_viscosity :: real
  wcsph_dt :: real

record SPH =
  supportParticles :: int
  particlesPerUnitVolume :: int
  restDensity :: real
  restSpacing :: real
  particleMass :: real
  particleMass2 :: real
  sph_h :: real
  sph_h2 :: real
  maxTimestep :: real
  wcsph :: WCSPH
  settings :: Settings
  kernel :: Kernel
  bounds :: Box3f
  grid :: Grid
  positions :: "Vector3f list"
  velocities :: "Vector3f list"
  normals :: "Vector3f list"
  forces :: "Vector3f list"
  densities :: "real list"
  pressures :: "real list"
  sph_indices :: "nat list"
  sph_t :: real

text \<open>
  Modelled from the spec: the vector class of \<open>core/Vector.h\<close> is not part of the sources
  at hand. Its one-argument constructor fills every component (\<open>splat\<close>), and the
  per-particle accumulators are "reset every step": a default-constructed vector is the
  zero vector.
\<close>

definition Vector3f_default :: Vector3f where
  "Vector3f_default = splat 0"

text \<open>
  \<open>iterate\<close> runs its tasks in slot order, as the branch without the thread pool does:
  \<open>for (size_t i = 0; i < count; ++i) func(i)\<close>.
\<close>

definition iterate :: "nat \<Rightarrow> (nat \<Rightarrow> 's \<Rightarrow> 's) \<Rightarrow> 's \<Rightarrow> 's" where
  "iterate cnt func s = fold func [0..<cnt] s"

text \<open>
  \<open>iterateNeighbours\<close>: the visitor \<open>func(j, r, r2)\<close> folds over the candidates with
  \<open>r2 < _h2\<close>; \<open>acc\<close> is what the visitor captures by reference.
\<close>

definition iterateNeighbours ::
  "SPH \<Rightarrow> Vector3f \<Rightarrow> (nat \<Rightarrow> Vector3f \<Rightarrow> real \<Rightarrow> 'a \<Rightarrow> 'a) \<Rightarrow> 'a \<Rightarrow> 'a" where
  "iterateNeighbours s p func acc =
     fold (\<lambda>j a. if squaredNorm (vsub p (positions s ! j)) < sph_h2 s
                  then func j (vsub p (positions s ! j)) (squaredNorm (vsub p (positions s ! j))) a
                  else a)
          (lookup (grid s) p (sph_h s)) acc"

definition computeDensityTask :: "nat \<Rightarrow> SPH \<Rightarrow> SPH" where
  "computeDensityTask i s =
     (let density = iterateNeighbours s (positions s ! i) (\<lambda>j r r2 d. d + poly6 (kernel s) r2) 0
                    * (particleMass s * poly6Constant (kernel s));
          t = density / restDensity s;
          pressure = wcsph_B (wcsph s) * ((t * t) * (t * t) * (t * t) * t - 1)
      in s\<lparr>densities := (densities s)[i := density], pressures := (pressures s)[i := pressure]\<rparr>)"

definition computeDensity :: "SPH \<Rightarrow> SPH" where
  "computeDensity s = iterate (length (positions s)) computeDensityTask s"

definition computeNormalsTask :: "nat \<Rightarrow> SPH \<Rightarrow> SPH" where
  "computeNormalsTask i s =
     (let normal = iterateNeighbours s (positions s ! i)
                     (\<lambda>j r r2 n. vadd n (vscale (1 / densities s ! j) (poly6Grad (kernel s) r r2)))
                     Vector3f_default
      in s\<lparr>normals := (normals s)[i :=
             vscale (sph_h s * particleMass s * poly6GradConstant (kernel s)) normal]\<rparr>)"

definition computeNormals :: "SPH \<Rightarrow> SPH" where
  "computeNormals s = iterate (length (positions s)) computeNormalsTask s"

text \<open>The four accumulators of one task of \<open>computeForces\<close>.\<close>

record ForceAcc =
  force :: Vector3f
  forceViscosity :: Vector3f
  forceCohesion :: Vector3f
  forceCurvature :: Vector3f

text \<open>The pressure term subtracted from \<open>force\<close> for the pair \<open>(i, j)\<close> (line 365).\<close>

definition pressureTerm :: "SPH \<Rightarrow> nat \<Rightarrow> nat \<Rightarrow> Vector3f" where
  "pressureTerm s i j =
     (let r = vsub (positions s ! i) (positions s ! j); rn = sqrt (squaredNorm r)
      in vscale (particleMass2 s
                 * (pressures s ! i / sqr (densities s ! i) + pressures s ! j / sqr (densities s ! j))
                 * spikyGradConstant (kernel s))
           (spikyGrad (kernel s) r rn))"

definition correctionFactor :: "SPH \<Rightarrow> nat \<Rightarrow> nat \<Rightarrow> real" where
  "correctionFactor s i j = 2 * restDensity s / (densities s ! i + densities s ! j)"

text \<open>What the visitor adds to the accumulators for a pair inside the support.\<close>

definition accumulatePair :: "SPH \<Rightarrow> nat \<Rightarrow> nat \<Rightarrow> ForceAcc \<Rightarrow> ForceAcc" where
  "accumulatePair s i j a =
     (let r = vsub (positions s ! i) (positions s ! j); rn = sqrt (squaredNorm r)
      in \<lparr> force = vsub (force a) (pressureTerm s i j),
           forceViscosity =
             (if densities s ! j > 0.0001
              then vsub (forceViscosity a)
                     (vscale (viscosityLaplace (kernel s) rn / densities s ! j)
                        (vsub (velocities s ! i) (velocities s ! j)))
              else forceViscosity a),
           forceCohesion =
             vadd (forceCohesion a)
               (vscale (surfaceTension (kernel s) rn) (vscale (correctionFactor s i j) r)),
           forceCurvature =
             vadd (forceCurvature a)
               (vscale (correctionFactor s i j) (vsub (normals s ! i) (normals s ! j))) \<rparr>)"

text \<open>The visitor of \<open>computeForces\<close> for particle \<open>i\<close> at candidate \<open>j\<close>.\<close>

definition forceVisit :: "nat \<Rightarrow> nat \<Rightarrow> ForceAcc \<times> SPH \<Rightarrow> ForceAcc \<times> SPH" where
  "forceVisit i j as =
     (let a = fst as; s = snd as in
      if i \<noteq> j then
        (let r2 = squaredNorm (vsub (positions s ! i) (positions s ! j)) in
         if r2 < sph_h2 s \<and> r2 > 0.00001 then (accumulatePair s i j a, s)
         else if r2 = 0 then
           (a, s\<lparr>positions := (positions s)[j := vadd (positions s ! j) (splat 0.00001)]\<rparr>)
         else (a, s))
      else (a, s))"

text \<open>
  The accumulators at the start of a task: \<open>force(0.f)\<close> and three default-constructed
  vectors.
\<close>

definition ForceAcc_init :: ForceAcc where
  "ForceAcc_init =
     \<lparr> force = splat 0, forceViscosity = Vector3f_default,
       forceCohesion = Vector3f_default, forceCurvature = Vector3f_default \<rparr>"

definition computeForcesTask :: "nat \<Rightarrow> SPH \<Rightarrow> SPH" where
  "computeForcesTask i s =
     (let as = fold (forceVisit i) (lookup (grid s) (positions s ! i) (sph_h s)) (ForceAcc_init, s);
          a = fst as; s' = snd as;
          fv = vscale (0.0001 * particleMass s' * viscosityLaplaceConstant (kernel s')) (forceViscosity a);
          fco = vscale (1 * particleMass2 s' * surfaceTensionConstant (kernel s')) (forceCohesion a);
          fcu = vscale (1 * particleMass s') (forceCurvature a);
          f = vadd (vadd (force a) (vadd (vadd fco fcu) fv))
                (vscale (particleMass s') (gravity (settings s')))
      in s'\<lparr>forces := (forces s')[i := f]\<rparr>)"

text \<open>
  For the statements about a task: the test under which the visitor accumulates for a
  candidate (\<open>i != j\<close> and \<open>r2 < _h2 && r2 > 0.00001f\<close>), the positions once the visitor
  has nudged every candidate that coincides with particle \<open>i\<close>, and the closing lines of the
  task, which scale the three side accumulators, add them and gravity to \<open>force\<close>.
\<close>

definition contributes :: "SPH \<Rightarrow> nat \<Rightarrow> nat \<Rightarrow> bool" where
  "contributes s i j \<longleftrightarrow>
     i \<noteq> j \<and> squaredNorm (vsub (positions s ! i) (positions s ! j)) < sph_h2 s
     \<and> squaredNorm (vsub (positions s ! i) (positions s ! j)) > 0.00001"

definition nudgedPositions :: "SPH \<Rightarrow> nat \<Rightarrow> nat list \<Rightarrow> Vector3f list" where
  "nudgedPositions s i js =
     map (\<lambda>k. if k \<in> set js \<and> k \<noteq> i \<and> positions s ! k = positions s ! i
              then vadd (positions s ! k) (splat 0.00001) else positions s ! k)
         [0..<length (positions s)]"

definition forceTotal :: "SPH \<Rightarrow> ForceAcc \<Rightarrow> Vector3f" where
  "forceTotal s a =
     vadd (vadd (force a)
             (vadd (vadd (vscale (1 * particleMass2 s * surfaceTensionConstant (kernel s)) (forceCohesion a))
                         (vscale (1 * particleMass s) (forceCurvature a)))
                   (vscale (0.0001 * particleMass s * viscosityLaplaceConstant (kernel s)) (forceViscosity a))))
          (vscale (particleMass s) (gravity (settings s)))"

definition computeForces :: "SPH \<Rightarrow> SPH" where
  "computeForces s = iterate (length (positions s)) computeForcesTask s"

text \<open>
  For the statements about the pass: the state in which the task of particle \<open>i\<close> starts, and
  the accumulators of a task when its visitor has seen every candidate.
\<close>

definition stateBeforeTask :: "SPH \<Rightarrow> nat \<Rightarrow> SPH" where
  "stateBeforeTask s i = fold computeForcesTask [0..<i] s"

definition taskAccumulators :: "SPH \<Rightarrow> nat \<Rightarrow> ForceAcc" where
  "taskAccumulators s i =
     fst (fold (forceVisit i) (lookup (grid s) (positions s ! i) (sph_h s)) (ForceAcc_init, s))"

text \<open>
  \<open>computeCollisions\<close>. One \<open>if\<close> of the loop body is \<open>collideFace\<close>: a test of the
  position against a face, and the handler called with the face normal and the
  penetration depth. \<open>p\<close> is a reference to \<open>_positions[i]\<close>, so each of the six tests reads
  the position the handler may just have changed. The loop bound is
  \<open>_positions.size() - 1\<close> in \<open>size_t\<close>.
\<close>

definition collideFace ::
  "(nat \<Rightarrow> Vector3f \<Rightarrow> real \<Rightarrow> SPH \<Rightarrow> SPH) \<Rightarrow> nat \<Rightarrow> (Vector3f \<Rightarrow> Box3f \<Rightarrow> bool)
     \<Rightarrow> Vector3f \<Rightarrow> (Vector3f \<Rightarrow> Box3f \<Rightarrow> real) \<Rightarrow> SPH \<Rightarrow> SPH" where
  "collideFace handler i outside n depth s =
     (if outside (positions s ! i) (bounds s)
      then handler i n (depth (positions s ! i) (bounds s)) s
      else s)"

definition collideParticle :: "(nat \<Rightarrow> Vector3f \<Rightarrow> real \<Rightarrow> SPH \<Rightarrow> SPH) \<Rightarrow> nat \<Rightarrow> SPH \<Rightarrow> SPH" where
  "collideParticle handler i s0 =
     (let s1 = collideFace handler i (\<lambda>p b. vx p < vx (box_min b))
                 (Vector3f 1 0 0) (\<lambda>p b. vx (box_min b) - vx p) s0;
          s2 = collideFace handler i (\<lambda>p b. vx p > vx (box_max b))
                 (Vector3f (- 1) 0 0) (\<lambda>p b. vx p - vx (box_max b)) s1;
          s3 = collideFace handler i (\<lambda>p b. vy p < vy (box_min b))
                 (Vector3f 0 1 0) (\<lambda>p b. vy (box_min b) - vy p) s2;
          s4 = collideFace handler i (\<lambda>p b. vy p > vy (box_max b))
                 (Vector3f 0 (- 1) 0) (\<lambda>p b. vy p - vy (box_max b)) s3;
          s5 = collideFace handler i (\<lambda>p b. vz p < vz (box_min b))
                 (Vector3f 0 0 1) (\<lambda>p b. vz (box_min b) - vz p) s4
      in collideFace handler i (\<lambda>p b. vz p > vz (box_max b))
           (Vector3f 0 0 (- 1)) (\<lambda>p b. vz p - vz (box_max b)) s5)"

definition computeCollisions :: "(nat \<Rightarrow> Vector3f \<Rightarrow> real \<Rightarrow> SPH \<Rightarrow> SPH) \<Rightarrow> SPH \<Rightarrow> SPH" where
  "computeCollisions handler s =
     fold (collideParticle handler) [0..<to_size_t (int (length (positions s)) - 1)] s"

text \<open>The collision handler of \<open>SPH::update\<close>, with restitution \<open>c = 0.5\<close>.\<close>

definition collisionHandler :: "nat \<Rightarrow> Vector3f \<Rightarrow> real \<Rightarrow> SPH \<Rightarrow> SPH" where
  "collisionHandler i n d s =
     s\<lparr>positions := (positions s)[i := vadd (positions s ! i) (vscale d n)],
       velocities := (velocities s)[i :=
         vsub (velocities s ! i) (vscale ((1 + 0.5) * dot (velocities s ! i) n) n)]\<rparr>"

text \<open>The swap callback that \<open>SPH::update\<close> hands to the grid.\<close>

definition swapParticles :: "nat \<Rightarrow> nat \<Rightarrow> SPH \<Rightarrow> SPH" where
  "swapParticles i j s =
     s\<lparr>positions := swapAt (positions s) i j, velocities := swapAt (velocities s) i j\<rparr>"

definition gridStage :: "SPH \<Rightarrow> SPH option" where
  "gridStage s =
     (case Grid_update (grid s) (positions s) swapParticles s of
        None \<Rightarrow> None
      | Some (g', s') \<Rightarrow> Some (s'\<lparr>grid := g'\<rparr>))"

definition integrateTask :: "real \<Rightarrow> real \<Rightarrow> nat \<Rightarrow> SPH \<Rightarrow> SPH" where
  "integrateTask invM dt i s =
     (let v = vadd (velocities s ! i) (vscale dt (vscale invM (forces s ! i)))
      in s\<lparr>velocities := (velocities s)[i := v],
           positions := (positions s)[i := vadd (positions s ! i) (vscale dt v)]\<rparr>)"

text \<open>\<open>std::fmod\<close>: the remainder with the sign of the dividend.\<close>

definition fmod :: "real \<Rightarrow> real \<Rightarrow> real" where
  "fmod a b = a - b * of_int (if a / b < 0 then \<lceil>a / b\<rceil> else \<lfloor>a / b\<rfloor>)"

text \<open>The head of \<open>SPH::update\<close>: the clock, and gravity chosen and then overwritten.\<close>

definition advanceSettings :: "real \<Rightarrow> SPH \<Rightarrow> SPH" where
  "advanceSettings dt s0 =
     (let s1 = s0\<lparr>sph_t := sph_t s0 + dt\<rparr>;
          t = fmod (sph_t s1 * 0.5) 4;
          s2 = s1\<lparr>settings := (settings s1)\<lparr>gravity :=
                 (if t < 1 then Vector3f 0 (- 9.81) 0
                  else if t < 2 then Vector3f 9.81 0 0
                  else if t < 3 then Vector3f 0 9.81 0
                  else Vector3f (- 9.81) 0 0)\<rparr>\<rparr>
      in s2\<lparr>settings := (settings s2)\<lparr>gravity := Vector3f 0 (- 9.81) 0\<rparr>\<rparr>)"

text \<open>The stages of \<open>SPH::update\<close> up to and including the force pass, and the whole step.\<close>

definition forceStage :: "real \<Rightarrow> SPH \<Rightarrow> SPH option" where
  "forceStage dt s =
     map_option (\<lambda>s'. computeForces (computeNormals (computeDensity s')))
       (gridStage (advanceSettings dt s))"

definition update :: "real \<Rightarrow> SPH \<Rightarrow> SPH option" where
  "update dt s =
     map_option
       (\<lambda>s'. computeCollisions collisionHandler
               (iterate (length (positions s')) (integrateTask (1 / particleMass s') dt) s'))
       (forceStage dt s)"

section \<open>A small scene\<close>

text \<open>
  The state the constructor derives for the unit box as domain, rest density 1000 and eight
  particles per unit volume: rest spacing \<open>1/2\<close>, support radius \<open>1\<close>, particle mass
  \<open>125\<close>, and the grid of \<open>2 \<times> 2 \<times> 2\<close> cells that \<open>Grid::init\<close> builds for it. The
  particles and their velocities are parameters.
\<close>

definition unitBox :: Box3f where
  "unitBox = \<lparr> box_min = Vector3f 0 0 0, box_max = Vector3f 1 1 1 \<rparr>"

definition exampleState :: "Vector3f list \<Rightarrow> Vector3f list \<Rightarrow> SPH" where
  "exampleState ps vs =
     \<lparr> supportParticles = 50, particlesPerUnitVolume = 8,
       restDensity = 1000, restSpacing = 1 / 2, particleMass = 125, particleMass2 = 15625,
       sph_h = 1, sph_h2 = 1, maxTimestep = 1 / 1000,
       wcsph = \<lparr> wcsph_gamma = 7, wcsph_cs = 10, wcsph_B = 100000 / 7,
                 wcsph_viscosity = 5 / 1000, wcsph_dt = 1 / 4905 \<rparr>,
       settings = \<lparr> stiffness = 3, viscosity = 1, gravity = Vector3f 0 (- 9.81) 0 \<rparr>,
       kernel = Kernel_init 1, bounds = unitBox, grid = Grid_init unitBox 1,
       positions = ps, velocities = vs,
       normals = replicate (length ps) (splat 0), forces = replicate (length ps) (splat 0),
       densities = replicate (length ps) 0, pressures = replicate (length ps) 0,
       sph_indices = replicate (length ps) 0, sph_t = 0 \<rparr>"

text \<open>The grid of the small scene after two particles were sorted into its first cell.\<close>

definition pairGrid :: Grid where
  "pairGrid = (Grid_init unitBox 1)\<lparr>cellOffset := [0, 2, 2, 2, 2, 2, 2, 2, 2]\<rparr>"

text \<open>
  Two neighbours half a support radius apart, sorted into the first two cells, with
  densities, pressures, normals and velocities that differ.
\<close>

definition neighbourGrid :: Grid where
  "neighbourGrid = (Grid_init unitBox 1)\<lparr>cellOffset := [0, 1, 2, 2, 2, 2, 2, 2, 2]\<rparr>"

definition neighbourState :: SPH where
  "neighbourState =
     exampleState [Vector3f (1 / 2) (1 / 2) (1 / 2), Vector3f 1 (1 / 2) (1 / 2)]
                  [Vector3f 1 0 0, Vector3f 0 0 0]
       \<lparr>grid := neighbourGrid, normals := [Vector3f 0 1 0, Vector3f 0 0 0],
         densities := [1000, 900], pressures := [10, 20]\<rparr>"


text \<open>
  For the proofs: a state differs from another at most in its position and force arrays,
  whose lengths agree.
\<close>

definition frameEq :: "SPH \<Rightarrow> SPH \<Rightarrow> bool" where
  "frameEq s s' \<longleftrightarrow>
     s' = s\<lparr>positions := positions s', forces := forces s'\<rparr>
     \<and> length (positions s') = length (positions s) \<and> length (forces s') = length (forces s)"


section \<open>Kernel constants\<close>

lemma poly6ShellPrimitive_deriv:
  "(poly6ShellPrimitive h has_real_derivative 4 * pi * r ^ 2 * cube (sqr h - sqr r)) (at r)"
  unfolding poly6ShellPrimitive_def cube_def sqr_def
  by (auto intro!: derivative_eq_intros simp: field_simps power2_eq_square power_numeral_reduce)

lemma poly6BallMass_value: "poly6BallMass h = 64 * pi * h ^ 9 / 315"
  unfolding poly6BallMass_def poly6ShellPrimitive_def
  by (simp add: field_simps power_numeral_reduce)

text \<open>
  C2. The density kernel's constant as \<open>Kernel::init\<close> computes it is \<open>365 / (64 \<pi> h\<^sup>9)\<close>; at
  \<open>h = 1\<close> it differs from the normalising constant \<open>315 / (64 \<pi>)\<close>, and the kernel's mass over
  the unit ball is \<open>365 / 315\<close>, not \<open>1\<close>.
\<close>

theorem C2_poly6Constant_at_one:
  "poly6Constant (Kernel_init 1) = 365 / (64 * pi)
   \<and> poly6Constant (Kernel_init 1) \<noteq> 315 / (64 * pi * 1 ^ 9)
   \<and> poly6Constant (Kernel_init 1) * poly6BallMass 1 = 365 / 315"
  by (simp add: Kernel_init_def poly6BallMass_value)


section \<open>The counting sort of the grid\<close>

declare sortTrace.simps [simp del] sortLoop.simps [simp del]

lemma sortLoop_sortTrace:
  "sortLoop offs swap i cidx inds s =
     map_option (\<lambda>(ci, ind, tr). (ci, ind, fold (\<lambda>(a, b). swap a b) tr s))
       (sortTrace offs i cidx inds)"
proof (induction offs swap i cidx inds s rule: sortLoop.induct)
  case (1 offs swap i cidx inds s)
  show ?case
    apply (subst sortLoop.simps)
    apply (subst sortTrace.simps)
    using 1 by (auto simp: option.map_comp comp_def split_def intro!: option.map_cong)
qed

lemma offs_mono_aux:
  assumes "\<forall>c<n. (offs :: nat list) ! c \<le> offs ! (c + 1)"
  shows "a \<le> b \<Longrightarrow> b \<le> n \<Longrightarrow> offs ! a \<le> offs ! b"
proof (induction b)
  case 0 then show ?case by simp
next
  case (Suc b)
  show ?case
  proof (cases "a = Suc b")
    case True then show ?thesis by simp
  next
    case False
    with Suc.prems have "a \<le> b" "b \<le> n" "b < n" by auto
    with Suc.IH assms show ?thesis by (metis Suc_eq_plus1 order_trans)
  qed
qed

lemma slice_unique:
  assumes mono: "\<forall>c<n. (offs :: nat list) ! c \<le> offs ! (c + 1)"
    and "c < n" "c' < n"
    and "offs ! c \<le> k" "k < offs ! (c + 1)"
    and "offs ! c' \<le> k" "k < offs ! (c' + 1)"
  shows "c = c'"
proof (rule ccontr)
  assume "c \<noteq> c'"
  then consider "c + 1 \<le> c'" | "c' + 1 \<le> c" by linarith
  then show False
  proof cases
    case 1
    then have "offs ! (c + 1) \<le> offs ! c'" using offs_mono_aux [OF mono] assms(3) by simp
    with assms show False by simp
  next
    case 2
    then have "offs ! (c' + 1) \<le> offs ! c" using offs_mono_aux [OF mono] assms(2) by simp
    with assms show False by simp
  qed
qed

lemma count_list_card: "count_list xs c = card {k. k < length xs \<and> xs ! k = c}"
proof -
  have "{k. k < length xs \<and> c = xs ! k} = {k. k < length xs \<and> xs ! k = c}" by auto
  then show ?thesis
    by (simp add: count_list_eq_length_filter length_filter_conv_card)
qed

lemma count_list_swapAt:
  "i < length xs \<Longrightarrow> j < length xs \<Longrightarrow> count_list (swapAt xs i j) c = count_list xs c"
proof -
  assume "i < length xs" "j < length xs"
  then have "mset (swapAt xs i j) = mset xs"
    unfolding swapAt_def by (simp add: mset_swap)
  then show ?thesis by (metis count_mset)
qed

lemma sortInvD:
  assumes "sortInv offs i cidx inds"
  shows "length offs = length cidx + 1"
    and "i \<le> length inds"
    and "offs ! (length cidx) = length inds"
    and "\<And>c. c < length cidx \<Longrightarrow> offs ! c \<le> cidx ! c"
    and "\<And>c. c < length cidx \<Longrightarrow> cidx ! c \<le> offs ! (c + 1)"
    and "\<And>k. k < length inds \<Longrightarrow> inds ! k < length cidx"
    and "\<And>c k. c < length cidx \<Longrightarrow> offs ! c \<le> k \<Longrightarrow> k < cidx ! c \<Longrightarrow> inds ! k = c"
    and "\<And>k. k < i \<Longrightarrow> offs ! (inds ! k) \<le> k"
    and "\<And>k. k < i \<Longrightarrow> k < cidx ! (inds ! k)"
    and "\<And>c. c < length cidx \<Longrightarrow> count_list inds c = offs ! (c + 1) - offs ! c"
  using assms unfolding sortInv_def by simp_all

lemma sortInv_mono:
  assumes "sortInv offs i cidx inds"
  shows "\<forall>c<length cidx. offs ! c \<le> offs ! (c + 1)"
proof (intro allI impI)
  fix c assume "c < length cidx"
  then show "offs ! c \<le> offs ! (c + 1)"
    using sortInvD(4,5) [OF assms, of c] by linarith
qed

lemma misplaced_True:
  "misplaced i cidx offs c = Some True \<Longrightarrow> c < length cidx \<and> (cidx ! c \<le> i \<or> i < offs ! c)"
  unfolding misplaced_def by (simp split: if_splits)

lemma sortInv_slot_free:
  assumes inv: "sortInv offs i cidx inds" and i: "i < length inds"
    and m: "misplaced i cidx offs (inds ! i) = Some True"
    and c': "c' < length cidx" and k: "offs ! c' \<le> i" "i < cidx ! c'"
  shows False
proof -
  have "inds ! i = c'" using sortInvD(7) [OF inv c' k] .
  with misplaced_True [OF m] k show False by auto
qed

lemma sortInv_target_lt:
  assumes inv: "sortInv offs i cidx inds" and i: "i < length inds"
    and m: "misplaced i cidx offs (inds ! i) = Some True"
  shows "cidx ! (inds ! i) < offs ! (inds ! i + 1)"
proof -
  let ?c = "inds ! i"
  let ?n = "length cidx"
  have c: "?c < ?n" using sortInvD(6) [OF inv i] .
  have b: "offs ! ?c \<le> cidx ! ?c" "cidx ! ?c \<le> offs ! (?c + 1)"
    using sortInvD(4,5) [OF inv c] .
  have mono: "\<forall>c<?n. offs ! c \<le> offs ! (c + 1)" by (rule sortInv_mono [OF inv])
  have top: "offs ! (?c + 1) \<le> length inds"
    using offs_mono_aux [OF mono, of "?c + 1" ?n] c sortInvD(3) [OF inv] by simp
  have notin: "i \<notin> {offs ! ?c..<cidx ! ?c}"
    using sortInv_slot_free [OF inv i m c] by auto
  have sub: "insert i {offs ! ?c..<cidx ! ?c} \<subseteq> {k. k < length inds \<and> inds ! k = ?c}"
  proof
    fix k assume k: "k \<in> insert i {offs ! ?c..<cidx ! ?c}"
    show "k \<in> {k. k < length inds \<and> inds ! k = ?c}"
    proof (cases "k = i")
      case True then show ?thesis using i by simp
    next
      case False
      with k have kk: "offs ! ?c \<le> k" "k < cidx ! ?c" by auto
      then have "inds ! k = ?c" using sortInvD(7) [OF inv c] by blast
      moreover have "k < length inds" using kk b top by linarith
      ultimately show ?thesis by simp
    qed
  qed
  have "card (insert i {offs ! ?c..<cidx ! ?c}) \<le> card {k. k < length inds \<and> inds ! k = ?c}"
    by (rule card_mono [OF _ sub]) simp
  moreover have "card (insert i {offs ! ?c..<cidx ! ?c}) = cidx ! ?c - offs ! ?c + 1"
    using notin by simp
  moreover have "card {k. k < length inds \<and> inds ! k = ?c} = offs ! (?c + 1) - offs ! ?c"
    using sortInvD(10) [OF inv c] unfolding count_list_card .
  ultimately show ?thesis using b by linarith
qed

lemma sortInv_target_free:
  assumes inv: "sortInv offs i cidx inds" and i: "i < length inds"
    and m: "misplaced i cidx offs (inds ! i) = Some True"
    and c': "c' < length cidx" and k: "offs ! c' \<le> cidx ! (inds ! i)" "cidx ! (inds ! i) < cidx ! c'"
  shows False
proof -
  let ?c = "inds ! i"
  let ?n = "length cidx"
  have c: "?c < ?n" using sortInvD(6) [OF inv i] .
  have mono: "\<forall>c<?n. offs ! c \<le> offs ! (c + 1)" by (rule sortInv_mono [OF inv])
  have b: "offs ! ?c \<le> cidx ! ?c" using sortInvD(4) [OF inv c] .
  have b': "cidx ! c' \<le> offs ! (c' + 1)" using sortInvD(5) [OF inv c'] .
  have lt': "cidx ! ?c < offs ! (c' + 1)" using k(2) b' by linarith
  have "?c = c'"
    using slice_unique [OF mono c c' b sortInv_target_lt [OF inv i m] k(1) lt'] .
  with k show False by simp
qed

lemma sortInv_target_ge:
  assumes inv: "sortInv offs i cidx inds" and i: "i < length inds"
    and m: "misplaced i cidx offs (inds ! i) = Some True"
  shows "i \<le> cidx ! (inds ! i)"
proof (rule ccontr)
  assume "\<not> i \<le> cidx ! (inds ! i)"
  then have lt: "cidx ! (inds ! i) < i" by simp
  let ?j = "cidx ! (inds ! i)"
  have p: "offs ! (inds ! ?j) \<le> ?j" "?j < cidx ! (inds ! ?j)"
    using sortInvD(8,9) [OF inv lt] .
  have "?j < length inds" using lt i by simp
  then have "inds ! ?j < length cidx" using sortInvD(6) [OF inv] by blast
  from sortInv_target_free [OF inv i m this p] show False .
qed

lemma length_swapAt [simp]: "length (swapAt xs i j) = length xs"
  by (simp add: swapAt_def)

lemma nth_swapAt:
  "i < length xs \<Longrightarrow> j < length xs \<Longrightarrow>
   swapAt xs i j ! k = (if k = j then xs ! i else if k = i then xs ! j else xs ! k)"
  by (simp add: swapAt_def nth_list_update)

lemma misplaced_False:
  "misplaced i cidx offs c = Some False \<Longrightarrow> c < length cidx \<and> i < cidx ! c \<and> offs ! c \<le> i"
  unfolding misplaced_def by (simp split: if_splits)

lemma misplaced_defined:
  "c < length cidx \<Longrightarrow> c < length offs \<Longrightarrow> misplaced i cidx offs c \<noteq> None"
  unfolding misplaced_def by auto

lemma sortInv_next:
  assumes inv: "sortInv offs i cidx inds" and i: "i < length inds"
    and m: "misplaced i cidx offs (inds ! i) = Some False"
  shows "sortInv offs (i + 1) cidx inds"
proof -
  have "\<And>k. k < i + 1 \<Longrightarrow> offs ! (inds ! k) \<le> k \<and> k < cidx ! (inds ! k)"
  proof -
    fix k assume "k < i + 1"
    then consider "k < i" | "k = i" by linarith
    then show "offs ! (inds ! k) \<le> k \<and> k < cidx ! (inds ! k)"
      using sortInvD(8,9) [OF inv] misplaced_False [OF m] by cases auto
  qed
  then show ?thesis
    using inv i unfolding sortInv_def by simp
qed

lemma sortInv_swap:
  assumes inv: "sortInv offs i cidx inds" and i: "i < length inds"
    and m: "misplaced i cidx offs (inds ! i) = Some True"
  shows "sortInv offs i (cidx[inds ! i := cidx ! (inds ! i) + 1]) (swapAt inds i (cidx ! (inds ! i)))"
proof -
  let ?c = "inds ! i"
  let ?j = "cidx ! ?c"
  let ?n = "length cidx"
  let ?cidx' = "cidx[?c := ?j + 1]"
  let ?inds' = "swapAt inds i ?j"
  have c: "?c < ?n" using sortInvD(6) [OF inv i] .
  have mono: "\<forall>c<?n. offs ! c \<le> offs ! (c + 1)" by (rule sortInv_mono [OF inv])
  have jlt: "?j < offs ! (?c + 1)" by (rule sortInv_target_lt [OF inv i m])
  have top: "offs ! (?c + 1) \<le> length inds"
    using offs_mono_aux [OF mono, of "?c + 1" ?n] c sortInvD(3) [OF inv] by simp
  have j: "?j < length inds" using jlt top by linarith
  have jge: "i \<le> ?j" by (rule sortInv_target_ge [OF inv i m])
  note nth = nth_swapAt [OF i j]
  have cidx'_nth: "\<And>c'. c' < ?n \<Longrightarrow> ?cidx' ! c' = (if c' = ?c then ?j + 1 else cidx ! c')"
    by (simp add: nth_list_update)
  have p1: "length offs = length ?cidx' + 1" using sortInvD(1) [OF inv] by simp
  have p2: "i \<le> length ?inds'" using i by simp
  have p3: "offs ! (length ?cidx') = length ?inds'" using sortInvD(3) [OF inv] by simp
  have p4: "\<forall>c'<length ?cidx'. offs ! c' \<le> ?cidx' ! c' \<and> ?cidx' ! c' \<le> offs ! (c' + 1)"
  proof (intro allI impI)
    fix c' assume "c' < length ?cidx'"
    then have c': "c' < ?n" by simp
    show "offs ! c' \<le> ?cidx' ! c' \<and> ?cidx' ! c' \<le> offs ! (c' + 1)"
      using sortInvD(4,5) [OF inv c'] jlt cidx'_nth [OF c'] by auto
  qed
  have p5: "\<forall>k<length ?inds'. ?inds' ! k < length ?cidx'"
  proof (intro allI impI)
    fix k assume "k < length ?inds'"
    then have "k < length inds" by simp
    then show "?inds' ! k < length ?cidx'"
      using sortInvD(6) [OF inv] i j by (simp add: nth)
  qed
  have p6: "\<forall>c'<length ?cidx'. \<forall>k. offs ! c' \<le> k \<and> k < ?cidx' ! c' \<longrightarrow> ?inds' ! k = c'"
  proof (intro allI impI)
    fix c' k assume "c' < length ?cidx'" and kk: "offs ! c' \<le> k \<and> k < ?cidx' ! c'"
    then have c': "c' < ?n" by simp
    show "?inds' ! k = c'"
    proof (cases "k = ?j")
      case True
      have "c' = ?c"
      proof (rule ccontr)
        assume "c' \<noteq> ?c"
        then have "?cidx' ! c' = cidx ! c'" using cidx'_nth [OF c'] by simp
        with kk True have "offs ! c' \<le> ?j" "?j < cidx ! c'" by simp_all
        from sortInv_target_free [OF inv i m c' this] show False .
      qed
      with True show ?thesis by (simp add: nth)
    next
      case False
      have old: "k < cidx ! c'"
        using kk False cidx'_nth [OF c'] by (auto split: if_splits)
      have "k \<noteq> i" using sortInv_slot_free [OF inv i m c'] kk old by blast
      with False have "?inds' ! k = inds ! k" by (simp add: nth)
      also have "inds ! k = c'" using sortInvD(7) [OF inv c'] kk old by blast
      finally show ?thesis .
    qed
  qed
  have p7: "\<forall>k<i. offs ! (?inds' ! k) \<le> k \<and> k < ?cidx' ! (?inds' ! k)"
  proof (intro allI impI)
    fix k assume k: "k < i"
    with jge have "k \<noteq> i" "k \<noteq> ?j" by simp_all
    then have e: "?inds' ! k = inds ! k" by (simp add: nth)
    have "k < length inds" using k i by simp
    then have ck: "inds ! k < ?n" using sortInvD(6) [OF inv] by blast
    show "offs ! (?inds' ! k) \<le> k \<and> k < ?cidx' ! (?inds' ! k)"
      using sortInvD(8,9) [OF inv k] cidx'_nth [OF ck] unfolding e by auto
  qed
  have p8: "\<forall>c'<length ?cidx'. count_list ?inds' c' = offs ! (c' + 1) - offs ! c'"
    using sortInvD(10) [OF inv] count_list_swapAt [OF i j] by simp
  show ?thesis
    unfolding sortInv_def using p1 p2 p3 p4 p5 p6 p7 p8 by blast
qed

lemma sortTrace_correct:
  assumes "sortInv offs i cidx inds"
  shows "\<exists>cidx' inds' tr. sortTrace offs i cidx inds = Some (cidx', inds', tr)
           \<and> sortInv offs (length inds) cidx' inds'
           \<and> length inds' = length inds \<and> length cidx' = length cidx
           \<and> (\<forall>(a, b) \<in> set tr. a < length inds \<and> b < length inds)
           \<and> inds' = fold (\<lambda>(a, b) xs. swapAt xs a b) tr inds
           \<and> length tr + sum_list cidx = sum_list cidx'"
  using assms
proof (induction offs i cidx inds rule: sortTrace.induct)
  case (1 offs i cidx inds)
  note inv = "1.prems"
  show ?case
  proof (cases "i < length inds")
    case False
    then have "i = length inds" using sortInvD(2) [OF inv] by simp
    with inv show ?thesis by (subst sortTrace.simps) simp
  next
    case i: True
    let ?c = "inds ! i"
    let ?j = "cidx ! ?c"
    have c: "?c < length cidx" using sortInvD(6) [OF inv i] .
    then have c2: "?c < length offs" using sortInvD(1) [OF inv] by simp
    have nn: "misplaced i cidx offs ?c \<noteq> None" by (rule misplaced_defined [OF c c2])
    show ?thesis
    proof (cases "misplaced i cidx offs ?c = Some True")
      case m: True
      have jlt: "?j < offs ! (?c + 1)" by (rule sortInv_target_lt [OF inv i m])
      have mono: "\<forall>c<length cidx. offs ! c \<le> offs ! (c + 1)" by (rule sortInv_mono [OF inv])
      have top: "offs ! (?c + 1) \<le> length inds"
        using offs_mono_aux [OF mono, of "?c + 1" "length cidx"] c sortInvD(3) [OF inv] by simp
      have j: "?j < length inds" using jlt top by linarith
      from "1.IH"(1) [OF i nn m j sortInv_swap [OF inv i m]]
      obtain cidx' inds' tr where
        r: "sortTrace offs i (cidx[?c := ?j + 1]) (swapAt inds i ?j) = Some (cidx', inds', tr)"
        and r1: "sortInv offs (length inds) cidx' inds'"
        and r2: "length inds' = length inds" "length cidx' = length cidx"
        and r3: "\<forall>(a, b) \<in> set tr. a < length inds \<and> b < length inds"
        and r4: "inds' = fold (\<lambda>(a, b) xs. swapAt xs a b) tr (swapAt inds i ?j)"
        and r5: "length tr + sum_list (cidx[?c := ?j + 1]) = sum_list cidx'"
        by auto
      have s: "sum_list (cidx[?c := ?j + 1]) = sum_list cidx + 1"
        using c by (simp add: sum_list_update member_le_sum_list)
      have "sortTrace offs i cidx inds = Some (cidx', inds', (i, ?j) # tr)"
        using r by (subst sortTrace.simps) (simp add: i nn m j)
      then show ?thesis
        using r1 r2 r3 r4 r5 s i j by auto
    next
      case False
      with nn have m: "misplaced i cidx offs ?c = Some False" by auto
      from "1.IH"(2) [OF i nn False sortInv_next [OF inv i m]]
      obtain cidx' inds' tr where
        r: "sortTrace offs (i + 1) cidx inds = Some (cidx', inds', tr)"
        and r1: "sortInv offs (length inds) cidx' inds'"
        and r2: "length inds' = length inds" "length cidx' = length cidx"
        and r3: "\<forall>(a, b) \<in> set tr. a < length inds \<and> b < length inds"
        and r4: "inds' = fold (\<lambda>(a, b) xs. swapAt xs a b) tr inds"
        and r5: "length tr + sum_list cidx = sum_list cidx'"
        by auto
      have "sortTrace offs i cidx inds = Some (cidx', inds', tr)"
        using r by (subst sortTrace.simps) (simp add: i nn m)
      then show ?thesis
        using r1 r2 r3 r4 r5 by auto
    qed
  qed
qed

declare countLoop.simps [simp del] prefixLoop.simps [simp del]


lemma countLoop_correct:
  assumes "length indices = length ps"
    and "\<forall>p \<in> set ps. cellOf g p < length cc"
    and "i \<le> length ps"
  shows "\<exists>indices' cc'. countLoop g ps i indices cc = Some (indices', cc')
           \<and> length indices' = length ps \<and> length cc' = length cc
           \<and> (\<forall>k<length ps. indices' ! k = (if k < i then indices ! k else cellOf g (ps ! k)))
           \<and> (\<forall>c<length cc. cc' ! c = cc ! c + count_list (map (cellOf g) (drop i ps)) c)"
  using assms
proof (induction g ps i indices cc rule: countLoop.induct)
  case (1 g ps i indices cc)
  show ?case
  proof (cases "i < length ps")
    case False
    then show ?thesis using "1.prems" by (subst countLoop.simps) simp
  next
    case i: True
    let ?c = "cellOf g (ps ! i)"
    have c: "?c < length cc" using "1.prems"(2) i by simp
    have i2: "i < length indices" using i "1.prems"(1) by simp
    have cond: "i < length indices \<and> cellOf g (ps ! i) < length cc"
      using c i2 by simp
    have "\<exists>indices' cc'. countLoop g ps (i + 1) (indices[i := ?c]) (cc[?c := cc ! ?c + 1]) = Some (indices', cc')
           \<and> length indices' = length ps \<and> length cc' = length (cc[?c := cc ! ?c + 1])
           \<and> (\<forall>k<length ps. indices' ! k = (if k < i + 1 then (indices[i := ?c]) ! k else cellOf g (ps ! k)))
           \<and> (\<forall>c<length (cc[?c := cc ! ?c + 1]). cc' ! c = (cc[?c := cc ! ?c + 1]) ! c + count_list (map (cellOf g) (drop (i + 1) ps)) c)"
      apply (rule "1.IH" [OF i cond])
      using "1.prems" i by simp_all
    then obtain indices' cc' where
      r: "countLoop g ps (i + 1) (indices[i := ?c]) (cc[?c := cc ! ?c + 1]) = Some (indices', cc')"
      and r1: "length indices' = length ps" "length cc' = length cc"
      and r2: "\<forall>k<length ps. indices' ! k = (if k < i + 1 then (indices[i := ?c]) ! k else cellOf g (ps ! k))"
      and r3: "\<forall>c<length cc. cc' ! c = (cc[?c := cc ! ?c + 1]) ! c + count_list (map (cellOf g) (drop (i + 1) ps)) c"
      by auto
    have e: "countLoop g ps i indices cc = Some (indices', cc')"
      using r cond i by (subst countLoop.simps) simp
    have d: "drop i ps = ps ! i # drop (i + 1) ps"
      using i by (simp add: Cons_nth_drop_Suc)
    have q2: "\<forall>k<length ps. indices' ! k = (if k < i then indices ! k else cellOf g (ps ! k))"
    proof (intro allI impI)
      fix k assume k: "k < length ps"
      show "indices' ! k = (if k < i then indices ! k else cellOf g (ps ! k))"
        using r2 k i2 by (cases "k = i") (auto simp: nth_list_update)
    qed
    have q3: "\<forall>c<length cc. cc' ! c = cc ! c + count_list (map (cellOf g) (drop i ps)) c"
    proof (intro allI impI)
      fix c' assume c': "c' < length cc"
      show "cc' ! c' = cc ! c' + count_list (map (cellOf g) (drop i ps)) c'"
        using r3 c' c unfolding d by (cases "c' = ?c") (auto simp: nth_list_update)
    qed
    show ?thesis using e r1 q2 q3 by blast
  qed
qed

lemma prefixLoop_correct:
  assumes "length cidx = n" and "length cc = n" and "n < length offs" and "i \<le> n"
  shows "\<exists>idx' cidx' offs'. prefixLoop cc i idx cidx offs = Some (idx', cidx', offs')
           \<and> length cidx' = n \<and> length offs' = length offs
           \<and> idx' = idx + sum ((!) cc) {i..<n}
           \<and> (\<forall>k<n. cidx' ! k = (if k < i then cidx ! k else idx + sum ((!) cc) {i..<k}))
           \<and> (\<forall>k<length offs. offs' ! k = (if k < i \<or> n \<le> k then offs ! k else idx + sum ((!) cc) {i..<k}))"
  using assms
proof (induction cc i idx cidx offs rule: prefixLoop.induct)
  case (1 cc i idx cidx offs)
  show ?case
  proof (cases "i < length cidx")
    case False
    then have "i = n" using "1.prems" by simp
    then show ?thesis using "1.prems" by (subst prefixLoop.simps) auto
  next
    case i: True
    have cond: "i < length offs \<and> i < length cc" using i "1.prems" by simp
    have "\<exists>idx' cidx' offs'. prefixLoop cc (i + 1) (idx + cc ! i) (cidx[i := idx]) (offs[i := idx]) = Some (idx', cidx', offs')
           \<and> length cidx' = n \<and> length offs' = length (offs[i := idx])
           \<and> idx' = (idx + cc ! i) + sum ((!) cc) {i + 1..<n}
           \<and> (\<forall>k<n. cidx' ! k = (if k < i + 1 then (cidx[i := idx]) ! k else (idx + cc ! i) + sum ((!) cc) {i + 1..<k}))
           \<and> (\<forall>k<length (offs[i := idx]). offs' ! k = (if k < i + 1 \<or> n \<le> k then (offs[i := idx]) ! k else (idx + cc ! i) + sum ((!) cc) {i + 1..<k}))"
      apply (rule "1.IH" [OF i cond])
      using "1.prems" i by simp_all
    then obtain idx' cidx' offs' where
      r: "prefixLoop cc (i + 1) (idx + cc ! i) (cidx[i := idx]) (offs[i := idx]) = Some (idx', cidx', offs')"
      and r1: "length cidx' = n" "length offs' = length offs"
      and r2: "idx' = (idx + cc ! i) + sum ((!) cc) {i + 1..<n}"
      and r3: "\<forall>k<n. cidx' ! k = (if k < i + 1 then (cidx[i := idx]) ! k else (idx + cc ! i) + sum ((!) cc) {i + 1..<k})"
      and r4: "\<forall>k<length offs. offs' ! k = (if k < i + 1 \<or> n \<le> k then (offs[i := idx]) ! k else (idx + cc ! i) + sum ((!) cc) {i + 1..<k})"
      by auto
    have e: "prefixLoop cc i idx cidx offs = Some (idx', cidx', offs')"
      using r cond i by (subst prefixLoop.simps) simp
    have split: "\<And>k. i < k \<Longrightarrow> sum ((!) cc) {i..<k} = cc ! i + sum ((!) cc) {i + 1..<k}"
      by (simp add: sum.atLeast_Suc_lessThan)
    have iltn: "i < n" using i "1.prems" by simp
    have q2: "idx' = idx + sum ((!) cc) {i..<n}"
      using r2 split [OF iltn] by simp
    have q3: "\<forall>k<n. cidx' ! k = (if k < i then cidx ! k else idx + sum ((!) cc) {i..<k})"
    proof (intro allI impI)
      fix k assume k: "k < n"
      consider "k < i" | "k = i" | "i < k" by linarith
      then show "cidx' ! k = (if k < i then cidx ! k else idx + sum ((!) cc) {i..<k})"
      proof cases
        case 1 then show ?thesis using r3 k by simp
      next
        case 2 then show ?thesis using r3 k i by simp
      next
        case 3 then show ?thesis using r3 k split [OF 3] by simp
      qed
    qed
    have q4: "\<forall>k<length offs. offs' ! k = (if k < i \<or> n \<le> k then offs ! k else idx + sum ((!) cc) {i..<k})"
    proof (intro allI impI)
      fix k assume k: "k < length offs"
      consider "k < i" | "k = i" | "i < k" "k < n" | "n \<le> k" by linarith
      then show "offs' ! k = (if k < i \<or> n \<le> k then offs ! k else idx + sum ((!) cc) {i..<k})"
      proof cases
        case 1 then show ?thesis using r4 k by simp
      next
        case 2 then show ?thesis using r4 k iltn by simp
      next
        case 3 then show ?thesis using r4 k split [OF 3(1)] by simp
      next
        case 4 then show ?thesis using r4 k iltn by simp
      qed
    qed
    show ?thesis using e r1 q2 q3 q4 by blast
  qed
qed

lemma sum_count_list:
  "\<forall>x \<in> set xs. x < (n::nat) \<Longrightarrow> (\<Sum>c = 0..<n. count_list xs c) = length xs"
proof (induction xs)
  case Nil then show ?case by simp
next
  case (Cons x xs)
  have "(\<Sum>c = 0..<n. count_list (x # xs) c) = (\<Sum>c = 0..<n. count_list xs c + (if c = x then 1 else 0))"
    by (intro sum.cong) auto
  also have "\<dots> = (\<Sum>c = 0..<n. count_list xs c) + (\<Sum>c = 0..<n. if c = x then 1 else 0)"
    by (simp add: sum.distrib)
  also have "(\<Sum>c = 0..<n. if c = x then 1 else 0) = (if x \<in> {0..<n} then (1::nat) else 0)"
    by (rule sum.delta) simp
  also have "(if x \<in> {0..<n} then (1::nat) else 0) = 1"
    using Cons.prems by simp
  finally show ?case using Cons by simp
qed

lemma Grid_update_plan:
  "Grid_update g ps swap s =
     map_option (\<lambda>(offs, inds', tr). (g\<lparr>cellOffset := offs\<rparr>, fold (\<lambda>(a, b). swap a b) tr s))
       (gridPlan g ps)"
  by (simp add: Grid_update_def gridPlan_def sortLoop_sortTrace split: option.splits prod.splits)

lemma linearOf_range:
  assumes "inGrid g c"
  shows "0 \<le> linearOf g c" and "linearOf g c < sizeProd g"
proof -
  let ?sx = "ix (gsize g)" and ?sy = "iy (gsize g)" and ?sz = "iz (gsize g)"
  from assms have x: "0 \<le> ix c" "ix c \<le> ?sx - 1" and y: "0 \<le> iy c" "iy c \<le> ?sy - 1"
    and z: "0 \<le> iz c" "iz c \<le> ?sz - 1"
    by (simp_all add: inGrid_def)
  have sx: "0 \<le> ?sx" and sy: "0 \<le> ?sy" using x y by linarith+
  have sxy: "0 \<le> ?sx * ?sy" using sx sy by simp
  show "0 \<le> linearOf g c"
    unfolding linearOf_def using x y z sx sxy by simp
  have a: "iy c * ?sx \<le> (?sy - 1) * ?sx" using y sx by (intro mult_right_mono) simp_all
  have b: "iz c * (?sx * ?sy) \<le> (?sz - 1) * (?sx * ?sy)" using z sxy by (intro mult_right_mono) simp_all
  have "linearOf g c \<le> (?sz - 1) * (?sx * ?sy) + (?sy - 1) * ?sx + (?sx - 1)"
    unfolding linearOf_def using a b x by linarith
  also have "\<dots> = sizeProd g - 1"
    by (simp add: sizeProd_def algebra_simps)
  finally show "linearOf g c < sizeProd g" by simp
qed

lemma cellOf_valid:
  assumes "grid_ok g" and "inGrid g (index g p)"
  shows "cellOf g p = nat (linearOf g (index g p))" and "cellOf g p < to_size_t (sizeProd g)"
proof -
  note r = linearOf_range [OF assms(2)]
  have p: "sizeProd g < 2 ^ 31" using assms(1) by (simp add: grid_ok_def)
  have m64: "linearOf g (index g p) mod 2 ^ 64 = linearOf g (index g p)"
    using r p by (intro mod_pos_pos_trivial) simp_all
  have lt32: "nat (linearOf g (index g p)) < 2 ^ 32" using r p by simp
  show c: "cellOf g p = nat (linearOf g (index g p))"
    using lt32 m64 by (simp add: cellOf_def indexLinear_def to_size_t_def to_uint32_def)
  have "sizeProd g mod 2 ^ 64 = sizeProd g"
    using r p by (intro mod_pos_pos_trivial) simp_all
  then show "cellOf g p < to_size_t (sizeProd g)"
    unfolding c to_size_t_def using r by simp
qed

lemma grid_ok_sizes:
  assumes "grid_ok g"
  shows "length (cellOffset g) = to_size_t (sizeProd g) + 1"
proof -
  have pos: "0 < sizeProd g" using assms by (simp add: grid_ok_def sizeProd_def)
  have p: "sizeProd g < 2 ^ 31" using assms by (simp add: grid_ok_def)
  have "sizeProd g mod 2 ^ 64 = sizeProd g" "(sizeProd g + 1) mod 2 ^ 64 = sizeProd g + 1"
    using pos p by (simp_all add: mod_pos_pos_trivial)
  then show ?thesis using assms pos by (simp add: grid_ok_def to_size_t_def nat_add_distrib)
qed

lemma gridPlan_correct:
  assumes ok: "grid_ok g" and valid: "validCells g ps"
  shows "\<exists>offs inds' tr. gridPlan g ps = Some (offs, inds', tr)
           \<and> length offs = to_size_t (sizeProd g) + 1
           \<and> offs ! 0 = 0 \<and> offs ! (to_size_t (sizeProd g)) = length ps
           \<and> (\<forall>c<to_size_t (sizeProd g). offs ! c \<le> offs ! (c + 1))
           \<and> length inds' = length ps
           \<and> (\<forall>k<length ps. inds' ! k < to_size_t (sizeProd g)
                  \<and> offs ! (inds' ! k) \<le> k \<and> k < offs ! (inds' ! k + 1))
           \<and> (\<forall>(a, b) \<in> set tr. a < length ps \<and> b < length ps)
           \<and> inds' = fold (\<lambda>(a, b) xs. swapAt xs a b) tr (map (cellOf g) ps)
           \<and> length tr \<le> length ps"
proof -
  let ?n = "to_size_t (sizeProd g)"
  let ?N = "length ps"
  have lenoff: "length (cellOffset g) = ?n + 1" by (rule grid_ok_sizes [OF ok])
  have cells: "\<forall>p \<in> set ps. cellOf g p < length (replicate ?n (0::nat))"
    using valid cellOf_valid(2) [OF ok] by (simp add: validCells_def list_all_iff)
  from countLoop_correct [of "replicate ?N 0" ps g "replicate ?n 0" 0, OF _ cells]
  obtain inds cc where
    c0: "countLoop g ps 0 (replicate ?N 0) (replicate ?n 0) = Some (inds, cc)"
    and c1: "length inds = ?N" "length cc = ?n"
    and c2: "\<forall>k<?N. inds ! k = cellOf g (ps ! k)"
    and c3: "\<forall>c<?n. cc ! c = count_list (map (cellOf g) ps) c"
    by auto
  have inds: "inds = map (cellOf g) ps"
    using c1 c2 by (intro nth_equalityI) simp_all
  from prefixLoop_correct [of "replicate ?n 0" ?n cc "cellOffset g" 0 0]
  obtain idx cidx offs where
    p0: "prefixLoop cc 0 0 (replicate ?n 0) (cellOffset g) = Some (idx, cidx, offs)"
    and p1: "length cidx = ?n" "length offs = ?n + 1"
    and p2: "idx = sum ((!) cc) {0..<?n}"
    and p3: "\<forall>k<?n. cidx ! k = sum ((!) cc) {0..<k}"
    and p4: "\<forall>k<?n. offs ! k = sum ((!) cc) {0..<k}"
    using c1 lenoff by auto
  let ?offs = "offs[length offs - 1 := idx]"
  have o1: "length ?offs = ?n + 1" using p1 by simp
  have o2: "\<And>k. k \<le> ?n \<Longrightarrow> ?offs ! k = sum ((!) cc) {0..<k}"
  proof -
    fix k assume "k \<le> ?n"
    then consider "k < ?n" | "k = ?n" by linarith
    then show "?offs ! k = sum ((!) cc) {0..<k}"
      using p1 p2 p4 by cases (simp_all add: nth_list_update)
  qed
  have inrange: "\<forall>x \<in> set inds. x < ?n" using cells inds by auto
  have total: "sum ((!) cc) {0..<?n} = ?N"
  proof -
    have "sum ((!) cc) {0..<?n} = (\<Sum>c = 0..<?n. count_list inds c)"
      using c3 inds by (intro sum.cong) simp_all
    also have "\<dots> = length inds" by (rule sum_count_list [OF inrange])
    finally show ?thesis using c1 by simp
  qed
  have step: "\<And>c. c < ?n \<Longrightarrow> ?offs ! (c + 1) = ?offs ! c + cc ! c"
    using o2 by simp
  have inv0: "sortInv ?offs 0 cidx inds"
    unfolding sortInv_def
  proof (intro conjI)
    show "length ?offs = length cidx + 1" using o1 p1 by simp
    show "0 \<le> length inds" by simp
    show "?offs ! length cidx = length inds" using o2 [of ?n] total p1 c1 by simp
    show "\<forall>c<length cidx. ?offs ! c \<le> cidx ! c \<and> cidx ! c \<le> ?offs ! (c + 1)"
      using p1 p3 o2 step by simp
    show "\<forall>k<length inds. inds ! k < length cidx" using inrange p1 by simp
    show "\<forall>c<length cidx. \<forall>k. ?offs ! c \<le> k \<and> k < cidx ! c \<longrightarrow> inds ! k = c"
      using p1 p3 p4 by simp
    show "\<forall>k<0. ?offs ! (inds ! k) \<le> k \<and> k < cidx ! (inds ! k)" by simp
    show "\<forall>c<length cidx. count_list inds c = ?offs ! (c + 1) - ?offs ! c"
      using p1 c3 inds step by simp
  qed
  from sortTrace_correct [OF inv0]
  obtain cidx' inds' tr where
    s0: "sortTrace ?offs 0 cidx inds = Some (cidx', inds', tr)"
    and s1: "sortInv ?offs (length inds) cidx' inds'"
    and s2: "length inds' = length inds" "length cidx' = length cidx"
    and s3: "\<forall>(a, b) \<in> set tr. a < length inds \<and> b < length inds"
    and s4: "inds' = fold (\<lambda>(a, b) xs. swapAt xs a b) tr inds"
    and s5: "length tr + sum_list cidx = sum_list cidx'"
    by blast
  have ne: "offs \<noteq> []" using p1 by auto
  have plan: "gridPlan g ps = Some (?offs, inds', tr)"
    unfolding gridPlan_def using c0 p0 s0 ne by simp
  have mono: "\<forall>c<?n. ?offs ! c \<le> ?offs ! (c + 1)" using step by simp
  have placed: "\<forall>k<?N. inds' ! k < ?n \<and> ?offs ! (inds' ! k) \<le> k \<and> k < ?offs ! (inds' ! k + 1)"
  proof (intro allI impI)
    fix k assume k: "k < ?N"
    then have k': "k < length inds'" "k < length inds" using s2 c1 by simp_all
    have a: "inds' ! k < length cidx'" using sortInvD(6) [OF s1 k'(1)] .
    have b: "?offs ! (inds' ! k) \<le> k" "k < cidx' ! (inds' ! k)"
      using sortInvD(8,9) [OF s1 k'(2)] .
    have "cidx' ! (inds' ! k) \<le> ?offs ! (inds' ! k + 1)" using sortInvD(5) [OF s1 a] .
    then show "inds' ! k < ?n \<and> ?offs ! (inds' ! k) \<le> k \<and> k < ?offs ! (inds' ! k + 1)"
      using a b s2 p1 by simp
  qed
  have bound: "length tr \<le> ?N"
  proof -
    have "sum_list cidx' = (\<Sum>c = 0..<?n. cidx' ! c)"
      using s2 p1 by (simp add: sum_list_sum_nth)
    also have "\<dots> \<le> (\<Sum>c = 0..<?n. ?offs ! (c + 1))"
      using sortInvD(5) [OF s1] s2 p1 by (intro sum_mono) simp
    also have "\<dots> = (\<Sum>c = 0..<?n. cidx ! c + cc ! c)"
      using step p3 o2 by (intro sum.cong) simp_all
    also have "\<dots> = sum_list cidx + ?N"
      using p1 total by (simp add: sum.distrib sum_list_sum_nth)
    finally show ?thesis using s5 by simp
  qed
  show ?thesis
    using plan o1 o2 [of 0] o2 [of ?n] total mono s2 c1 placed s3 s4 inds bound by auto
qed

lemma map_swapAt:
  "a < length xs \<Longrightarrow> b < length xs \<Longrightarrow> map f (swapAt xs a b) = swapAt (map f xs) a b"
  by (simp add: swapAt_def map_update)

lemma length_swapsOn [simp]: "length (swapsOn tr xs) = length xs"
  by (induction tr arbitrary: xs) (auto simp: split_def)

lemma map_swapsOn:
  "\<forall>(a, b) \<in> set tr. a < length xs \<and> b < length xs \<Longrightarrow>
   map f (swapsOn tr xs) = swapsOn tr (map f xs)"
proof (induction tr arbitrary: xs)
  case Nil then show ?case by simp
next
  case (Cons ab tr)
  obtain a b where ab: "ab = (a, b)" by (cases ab)
  have "map f (swapsOn tr (swapAt xs a b)) = swapsOn tr (map f (swapAt xs a b))"
    using Cons.prems by (intro Cons.IH) (auto simp: ab)
  then show ?case using Cons.prems by (simp add: ab map_swapAt)
qed

lemma mset_swapsOn:
  "\<forall>(a, b) \<in> set tr. a < length xs \<and> b < length xs \<Longrightarrow> mset (swapsOn tr xs) = mset xs"
proof (induction tr arbitrary: xs)
  case Nil then show ?case by simp
next
  case (Cons ab tr)
  obtain a b where ab: "ab = (a, b)" by (cases ab)
  have "mset (swapsOn tr (swapAt xs a b)) = mset (swapAt xs a b)"
    using Cons.prems by (intro Cons.IH) (auto simp: ab)
  moreover have "mset (swapAt xs a b) = mset xs"
    using Cons.prems unfolding swapAt_def ab by (simp add: mset_swap)
  ultimately show ?case by (simp add: ab)
qed

lemma swapParticles_fold:
  "positions (fold (\<lambda>(a, b). swapParticles a b) tr s) = swapsOn tr (positions s)
   \<and> velocities (fold (\<lambda>(a, b). swapParticles a b) tr s) = swapsOn tr (velocities s)
   \<and> fold (\<lambda>(a, b). swapParticles a b) tr s
       = s\<lparr>positions := swapsOn tr (positions s), velocities := swapsOn tr (velocities s)\<rparr>"
proof (induction tr arbitrary: s)
  case Nil then show ?case by simp
next
  case (Cons ab tr)
  obtain a b where ab: "ab = (a, b)" by (cases ab)
  show ?case using Cons [of "swapParticles a b s"] by (simp add: ab swapParticles_def)
qed

lemma indexLinear_cellOffset [simp]:
  "indexLinear (g\<lparr>cellOffset := offs\<rparr>) p = indexLinear g p"
  by (simp add: indexLinear_def linearOf_def index_def)

lemma sizeProd_cellOffset [simp]: "sizeProd (g\<lparr>cellOffset := offs\<rparr>) = sizeProd g"
  by (simp add: sizeProd_def)

lemma indexLinear_valid:
  assumes "grid_ok g" and "inGrid g (index g p)"
  shows "indexLinear g p = cellOf g p"
proof -
  note r = linearOf_range [OF assms(2)]
  have p: "sizeProd g < 2 ^ 31" using assms(1) by (simp add: grid_ok_def)
  have "linearOf g (index g p) mod 2 ^ 64 = linearOf g (index g p)"
    using r p by (intro mod_pos_pos_trivial) simp_all
  then show ?thesis
    using cellOf_valid(1) [OF assms] by (simp add: indexLinear_def to_size_t_def)
qed

lemma gridStage_plan:
  "gridStage s =
     map_option (\<lambda>(offs, inds', tr).
         s\<lparr>positions := swapsOn tr (positions s), velocities := swapsOn tr (velocities s),
           grid := (grid s)\<lparr>cellOffset := offs\<rparr>\<rparr>)
       (gridPlan (grid s) (positions s))"
  unfolding gridStage_def Grid_update_plan
  by (cases "gridPlan (grid s) (positions s)") (auto simp: swapParticles_fold)


lemma fold_record_swaps:
  "fold (\<lambda>(a, b) tr. tr @ [(a, b)]) tr acc = acc @ tr"
  by (induction tr arbitrary: acc) (auto simp: split_def)

lemma swapsOn_via_slots:
  assumes "\<forall>(a, b) \<in> set tr. a < length xs \<and> b < length xs"
  shows "swapsOn tr xs = map ((!) xs) (swapsOn tr [0..<length xs])"
proof -
  have "map ((!) xs) (swapsOn tr [0..<length xs]) = swapsOn tr (map ((!) xs) [0..<length xs])"
    using assms by (intro map_swapsOn) simp
  then show ?thesis by (simp add: map_nth)
qed

lemma lookupCells_bounds:
  assumes "c \<in> set (lookupCells g pos radius)"
  shows "0 \<le> ix c \<and> ix c \<le> ix (gsize g) - 1 \<and> 0 \<le> iy c \<and> iy c \<le> iy (gsize g) - 1
         \<and> 0 \<le> iz c \<and> iz c \<le> iz (gsize g) - 1"
  using assms by (auto simp: lookupCells_def Let_def)

lemma lookupCells_inGrid: "c \<in> set (lookupCells g pos radius) \<Longrightarrow> inGrid g c"
  using lookupCells_bounds [of c g pos radius] by (simp add: inGrid_def)

lemma lookupCells_outside: "boxOutside g pos radius \<Longrightarrow> lookupCells g pos radius = []"
  by (auto simp: boxOutside_def lookupCells_def Let_def)

lemma to_size_t_linearOf:
  assumes "grid_ok g" and "inGrid g c"
  shows "to_size_t (linearOf g c) = nat (linearOf g c)"
    and "to_size_t (linearOf g c) < to_size_t (sizeProd g)"
proof -
  note r = linearOf_range [OF assms(2)]
  have p: "sizeProd g < 2 ^ 31" using assms(1) by (simp add: grid_ok_def)
  have a: "linearOf g c mod 2 ^ 64 = linearOf g c"
    using r p by (intro mod_pos_pos_trivial) simp_all
  have b: "sizeProd g mod 2 ^ 64 = sizeProd g"
    using r p by (intro mod_pos_pos_trivial) simp_all
  show "to_size_t (linearOf g c) = nat (linearOf g c)" using a by (simp add: to_size_t_def)
  show "to_size_t (linearOf g c) < to_size_t (sizeProd g)"
    using a b r by (simp add: to_size_t_def)
qed

lemma cellSlots_bound:
  assumes ok: "grid_ok g" and srt: "sorted (cellOffset g)" and lst: "last (cellOffset g) \<le> N"
    and c: "inGrid g c" and j: "j \<in> set (cellSlots g c)"
  shows "j < N"
proof -
  let ?i = "to_size_t (linearOf g c)"
  have len: "length (cellOffset g) = to_size_t (sizeProd g) + 1" by (rule grid_ok_sizes [OF ok])
  have i: "?i + 1 < length (cellOffset g)" using to_size_t_linearOf(2) [OF ok c] len by simp
  have "j < cellOffset g ! (?i + 1)" using j by (simp add: cellSlots_def)
  also have "cellOffset g ! (?i + 1) \<le> cellOffset g ! (length (cellOffset g) - 1)"
    using i by (intro sorted_nth_mono [OF srt]) simp_all
  also have "\<dots> = last (cellOffset g)"
    using i by (simp add: last_conv_nth [of "cellOffset g"] length_greater_0_conv [symmetric] del: length_greater_0_conv)
  finally show ?thesis using lst by simp
qed


lemma unitGrid:
  "Grid_init unitBox 1 =
     \<lparr> g_bounds = unitBox, cellSize = 1, invCellSize = 1, gsize = Vector3i 2 2 2,
       cellOffset = [0, 0, 0, 0, 0, 0, 0, 0, 0] \<rparr>"
  by (simp add: Grid_init_def floorInt_def unitBox_def extents_def vsub_def to_size_t_def eval_nat_numeral)

lemma unitGrid_ok: "grid_ok (Grid_init unitBox 1)"
  by (simp add: unitGrid grid_ok_def sizeProd_def to_size_t_def)

lemma unitGrid_valid:
  "validCells (Grid_init unitBox 1)
     [Vector3f 1 1 1, Vector3f (1 / 2) (1 / 2) (1 / 2), Vector3f (1 / 4) (1 / 2) (1 / 2)]"
  unfolding unitGrid by (simp add: validCells_def inGrid_def index_def floorInt_def unitBox_def)

text \<open>
  C6. After the grid stage of \<open>update\<close> on a particle set whose positions all map to
  cells of the grid, the offset vector has one entry per cell and a last entry equal to the
  particle count, it starts at 0 and never decreases, every slot of the slice
  \<open>[offset c, offset (c + 1))\<close> holds a position whose linear cell is \<open>c\<close>, and every slot
  below the particle count lies in exactly one slice.
\<close>

theorem C6_partition:
  assumes "grid_ok (grid s)" and "validCells (grid s) (positions s)"
  shows "\<exists>s'. gridStage s = Some s'
          \<and> length (positions s') = length (positions s)
          \<and> length (cellOffset (grid s')) = to_size_t (sizeProd (grid s')) + 1
          \<and> cellOffset (grid s') ! 0 = 0
          \<and> last (cellOffset (grid s')) = length (positions s')
          \<and> (\<forall>c<to_size_t (sizeProd (grid s')).
                cellOffset (grid s') ! c \<le> cellOffset (grid s') ! (c + 1))
          \<and> (\<forall>c<to_size_t (sizeProd (grid s')). \<forall>k.
                cellOffset (grid s') ! c \<le> k \<and> k < cellOffset (grid s') ! (c + 1)
                \<longrightarrow> indexLinear (grid s') (positions s' ! k) = c)
          \<and> (\<forall>k<length (positions s'). \<exists>!c. c < to_size_t (sizeProd (grid s'))
                \<and> cellOffset (grid s') ! c \<le> k \<and> k < cellOffset (grid s') ! (c + 1))"
proof -
  let ?g = "grid s" and ?ps = "positions s"
  let ?n = "to_size_t (sizeProd ?g)" and ?N = "length ?ps"
  from gridPlan_correct [OF assms]
  obtain offs inds' tr where
    plan: "gridPlan ?g ?ps = Some (offs, inds', tr)"
    and o1: "length offs = ?n + 1" and o2: "offs ! 0 = 0" and o3: "offs ! ?n = ?N"
    and mono: "\<forall>c<?n. offs ! c \<le> offs ! (c + 1)"
    and placed: "\<forall>k<?N. inds' ! k < ?n \<and> offs ! (inds' ! k) \<le> k \<and> k < offs ! (inds' ! k + 1)"
    and rng: "\<forall>(a, b) \<in> set tr. a < ?N \<and> b < ?N"
    and inds': "inds' = swapsOn tr (map (cellOf ?g) ?ps)"
    by blast
  let ?s' = "s\<lparr>positions := swapsOn tr ?ps, velocities := swapsOn tr (velocities s),
                grid := ?g\<lparr>cellOffset := offs\<rparr>\<rparr>"
  have st: "gridStage s = Some ?s'" by (simp add: gridStage_plan plan)
  have cells: "map (cellOf ?g) (swapsOn tr ?ps) = inds'"
    using map_swapsOn [OF rng] inds' by simp
  have "mset (swapsOn tr ?ps) = mset ?ps" by (rule mset_swapsOn [OF rng])
  then have "set (swapsOn tr ?ps) = set ?ps" by (rule mset_eq_setD)
  then have valid': "\<forall>k<?N. inGrid ?g (index ?g (swapsOn tr ?ps ! k))"
    using assms(2) by (auto simp: validCells_def list_all_iff dest: nth_mem [of _ "swapsOn tr ?ps", simplified])
  have lin: "\<forall>k<?N. indexLinear ?g (swapsOn tr ?ps ! k) = inds' ! k"
  proof (intro allI impI)
    fix k assume k: "k < ?N"
    have "indexLinear ?g (swapsOn tr ?ps ! k) = cellOf ?g (swapsOn tr ?ps ! k)"
      using indexLinear_valid [OF assms(1)] valid' k by blast
    also have "\<dots> = map (cellOf ?g) (swapsOn tr ?ps) ! k" using k by simp
    finally show "indexLinear ?g (swapsOn tr ?ps ! k) = inds' ! k" using cells by simp
  qed
  have top: "\<And>c. c < ?n \<Longrightarrow> offs ! (c + 1) \<le> ?N"
    using offs_mono_aux [OF mono, of _ ?n] o3 by (metis Suc_eq_plus1 Suc_leI le_refl)
  have slice: "\<forall>c<?n. \<forall>k. offs ! c \<le> k \<and> k < offs ! (c + 1) \<longrightarrow> indexLinear ?g (swapsOn tr ?ps ! k) = c"
  proof (intro allI impI)
    fix c k assume c: "c < ?n" and k: "offs ! c \<le> k \<and> k < offs ! (c + 1)"
    then have kN: "k < ?N" using top [OF c] by linarith
    from placed kN have p: "inds' ! k < ?n" "offs ! (inds' ! k) \<le> k" "k < offs ! (inds' ! k + 1)"
      by blast+
    have "inds' ! k = c"
      using slice_unique [OF mono p(1) c p(2,3)] k by blast
    then show "indexLinear ?g (swapsOn tr ?ps ! k) = c" using lin kN by simp
  qed
  have uniq: "\<forall>k<?N. \<exists>!c. c < ?n \<and> offs ! c \<le> k \<and> k < offs ! (c + 1)"
  proof (intro allI impI)
    fix k assume kN: "k < ?N"
    from placed kN have p: "inds' ! k < ?n" "offs ! (inds' ! k) \<le> k" "k < offs ! (inds' ! k + 1)"
      by blast+
    show "\<exists>!c. c < ?n \<and> offs ! c \<le> k \<and> k < offs ! (c + 1)"
    proof (rule ex1I [of _ "inds' ! k"])
      show "inds' ! k < ?n \<and> offs ! (inds' ! k) \<le> k \<and> k < offs ! (inds' ! k + 1)" using p by simp
    next
      fix c assume "c < ?n \<and> offs ! c \<le> k \<and> k < offs ! (c + 1)"
      then show "c = inds' ! k" using slice_unique [OF mono _ p(1) _ _ p(2,3), of c] by blast
    qed
  qed
  have lastoff: "last offs = ?N"
    using o1 o3 by (simp add: last_conv_nth [of offs] length_greater_0_conv [symmetric] del: length_greater_0_conv)
  show ?thesis
    apply (rule exI [of _ ?s'])
    using st o1 o2 lastoff mono slice uniq by simp
qed


theorem C6_partition_witness:
  "grid_ok (grid (exampleState [Vector3f 1 1 1, Vector3f (1 / 2) (1 / 2) (1 / 2), Vector3f (1 / 4) (1 / 2) (1 / 2)] [splat 0, splat 0, splat 0]))
   \<and> validCells (grid (exampleState [Vector3f 1 1 1, Vector3f (1 / 2) (1 / 2) (1 / 2), Vector3f (1 / 4) (1 / 2) (1 / 2)] [splat 0, splat 0, splat 0]))
        (positions (exampleState [Vector3f 1 1 1, Vector3f (1 / 2) (1 / 2) (1 / 2), Vector3f (1 / 4) (1 / 2) (1 / 2)] [splat 0, splat 0, splat 0]))
   \<and> (\<exists>s'. gridStage (exampleState [Vector3f 1 1 1, Vector3f (1 / 2) (1 / 2) (1 / 2), Vector3f (1 / 4) (1 / 2) (1 / 2)] [splat 0, splat 0, splat 0]) = Some s'
          \<and> length (positions s') = 3 \<and> length (cellOffset (grid s')) = 9
          \<and> cellOffset (grid s') ! 0 = 0 \<and> last (cellOffset (grid s')) = 3)"
proof -
  let ?s = "exampleState [Vector3f 1 1 1, Vector3f (1 / 2) (1 / 2) (1 / 2), Vector3f (1 / 4) (1 / 2) (1 / 2)] [splat 0, splat 0, splat 0]"
  have h1: "grid_ok (grid ?s)" by (simp add: exampleState_def unitGrid_ok)
  have h2: "validCells (grid ?s) (positions ?s)" by (simp add: exampleState_def unitGrid_valid)
  from C6_partition [OF h1 h2] obtain s' where
    r: "gridStage ?s = Some s'" "length (positions s') = length (positions ?s)"
       "length (cellOffset (grid s')) = to_size_t (sizeProd (grid s')) + 1"
       "cellOffset (grid s') ! 0 = 0" "last (cellOffset (grid s')) = length (positions s')"
    by blast
  have g: "sizeProd (grid s') = 8"
    using r(1) by (auto simp: gridStage_plan exampleState_def unitGrid sizeProd_def)
  show ?thesis
    using h1 h2 r g by (simp add: to_size_t_def exampleState_def)
qed

lemma pairGrid_eq:
  "pairGrid = \<lparr> g_bounds = unitBox, cellSize = 1, invCellSize = 1, gsize = Vector3i 2 2 2,
       cellOffset = [0, 2, 2, 2, 2, 2, 2, 2, 2] \<rparr>"
  by (simp add: pairGrid_def unitGrid)

lemma pairGrid_ok: "grid_ok pairGrid \<and> sorted (cellOffset pairGrid) \<and> last (cellOffset pairGrid) \<le> 2"
  by (simp add: pairGrid_eq grid_ok_def sizeProd_def to_size_t_def)

lemma pairGrid_cells:
  "lookupCells pairGrid (Vector3f (1 / 2) (1 / 2) (1 / 2)) 1 =
     [Vector3i 0 0 0, Vector3i 1 0 0, Vector3i 0 1 0, Vector3i 1 1 0,
      Vector3i 0 0 1, Vector3i 1 0 1, Vector3i 0 1 1, Vector3i 1 1 1]"
  unfolding pairGrid_eq
  by (simp add: lookupCells_def index_def floorInt_def unitBox_def vsub_def vadd_def splat_def Let_def upto.simps)

lemma pairGrid_lookup:
  "lookup pairGrid (Vector3f (1 / 2) (1 / 2) (1 / 2)) 1 = [0, 1]"
  unfolding lookup_def pairGrid_cells
  by (simp add: pairGrid_eq cellSlots_def linearOf_def to_size_t_def upt_rec)

lemma pairGrid_far:
  "index pairGrid (vadd (Vector3f 10000000000 (1 / 2) (1 / 2)) (splat 1)) = Vector3i (- 2147483648) 1 1
   \<and> boxOutside pairGrid (Vector3f 10000000000 (1 / 2) (1 / 2)) 1"
  unfolding pairGrid_eq
  by (simp add: boxOutside_def index_def floorInt_def unitBox_def vsub_def vadd_def splat_def)

text \<open>
  C7. On a grid whose offset vector never decreases and ends at or below the particle count
  (as \<open>init\<close> and \<open>update\<close> leave it), for every query point and radius, also where a cell
  coordinate of the query box leaves the range of \<open>int\<close>, \<open>lookup\<close> visits only cells with
  coordinates inside the grid, reads the offset vector only inside its length, calls the
  visitor only with slots below the particle count, and visits nothing when the query box
  misses the grid.
\<close>

theorem C7_lookup_in_range:
  assumes "grid_ok g" and "sorted (cellOffset g)" and "last (cellOffset g) \<le> N"
  shows "(\<forall>c \<in> set (lookupCells g pos radius).
            inGrid g c \<and> to_size_t (linearOf g c) + 1 < length (cellOffset g))
         \<and> (\<forall>j \<in> set (lookup g pos radius). j < N)
         \<and> (boxOutside g pos radius \<longrightarrow> lookup g pos radius = [])"
proof (intro conjI ballI impI)
  fix c assume c: "c \<in> set (lookupCells g pos radius)"
  show "inGrid g c" by (rule lookupCells_inGrid [OF c])
  show "to_size_t (linearOf g c) + 1 < length (cellOffset g)"
    using to_size_t_linearOf(2) [OF assms(1) lookupCells_inGrid [OF c]] grid_ok_sizes [OF assms(1)]
    by simp
next
  fix j assume "j \<in> set (lookup g pos radius)"
  then obtain c where "c \<in> set (lookupCells g pos radius)" "j \<in> set (cellSlots g c)"
    by (auto simp: lookup_def)
  then show "j < N"
    using cellSlots_bound [OF assms lookupCells_inGrid] by blast
next
  assume "boxOutside g pos radius"
  then show "lookup g pos radius = []" by (simp add: lookup_def lookupCells_outside)
qed


theorem C7_lookup_in_range_witness:
  "grid_ok pairGrid \<and> sorted (cellOffset pairGrid) \<and> last (cellOffset pairGrid) \<le> 2
   \<and> index pairGrid (vsub (Vector3f (1 / 2) (1 / 2) (1 / 2)) (splat 1)) = Vector3i (- 1) (- 1) (- 1)
   \<and> lookupCells pairGrid (Vector3f (1 / 2) (1 / 2) (1 / 2)) 1 =
       [Vector3i 0 0 0, Vector3i 1 0 0, Vector3i 0 1 0, Vector3i 1 1 0,
        Vector3i 0 0 1, Vector3i 1 0 1, Vector3i 0 1 1, Vector3i 1 1 1]
   \<and> list_all (\<lambda>c. inGrid pairGrid c \<and> to_size_t (linearOf pairGrid c) + 1 < length (cellOffset pairGrid))
        (lookupCells pairGrid (Vector3f (1 / 2) (1 / 2) (1 / 2)) 1)
   \<and> lookup pairGrid (Vector3f (1 / 2) (1 / 2) (1 / 2)) 1 = [0, 1]
   \<and> list_all (\<lambda>j. j < 2) (lookup pairGrid (Vector3f (1 / 2) (1 / 2) (1 / 2)) 1)
   \<and> index pairGrid (vadd (Vector3f 10000000000 (1 / 2) (1 / 2)) (splat 1)) = Vector3i (- 2147483648) 1 1
   \<and> boxOutside pairGrid (Vector3f 10000000000 (1 / 2) (1 / 2)) 1
   \<and> lookup pairGrid (Vector3f 10000000000 (1 / 2) (1 / 2)) 1 = []"
proof -
  have h: "grid_ok pairGrid" "sorted (cellOffset pairGrid)" "last (cellOffset pairGrid) \<le> 2"
    using pairGrid_ok by simp_all
  have lo: "index pairGrid (vsub (Vector3f (1 / 2) (1 / 2) (1 / 2)) (splat 1)) = Vector3i (- 1) (- 1) (- 1)"
    unfolding pairGrid_eq by (simp add: index_def floorInt_def unitBox_def vsub_def splat_def)
  note near = C7_lookup_in_range [OF h, of "Vector3f (1 / 2) (1 / 2) (1 / 2)" 1]
  note far = C7_lookup_in_range [OF h, of "Vector3f 10000000000 (1 / 2) (1 / 2)" 1]
  have a: "list_all (\<lambda>c. inGrid pairGrid c \<and> to_size_t (linearOf pairGrid c) + 1 < length (cellOffset pairGrid))
        (lookupCells pairGrid (Vector3f (1 / 2) (1 / 2) (1 / 2)) 1)"
    using near unfolding list_all_iff by blast
  have b: "list_all (\<lambda>j. j < 2) (lookup pairGrid (Vector3f (1 / 2) (1 / 2) (1 / 2)) 1)"
    using near unfolding list_all_iff by blast
  have c: "lookup pairGrid (Vector3f 10000000000 (1 / 2) (1 / 2)) 1 = []"
    using far pairGrid_far by blast
  show ?thesis
    using h lo pairGrid_cells a pairGrid_lookup b pairGrid_far c by blast
qed

text \<open>
  C9. The counting pass indexes with the linear cell of the raw position. When every
  position has its cell coordinates inside the grid, every such index is the linear cell
  and lies below the cell count, and the pass completes. The condition is sufficient, not
  necessary: a position outside the grid can alias a cell of the grid.
\<close>

theorem C9_count_in_range:
  assumes "grid_ok g" and "validCells g ps"
  shows "(\<forall>p \<in> set ps. cellOf g p < to_size_t (sizeProd g)
            \<and> indexLinear g p = cellOf g p \<and> int (cellOf g p) = linearOf g (index g p))
         \<and> (\<exists>r. countLoop g ps 0 (replicate (length ps) 0)
                   (replicate (to_size_t (sizeProd g)) 0) = Some r)"
proof (intro conjI ballI)
  fix p assume "p \<in> set ps"
  then have v: "inGrid g (index g p)" using assms(2) by (simp add: validCells_def list_all_iff)
  show "cellOf g p < to_size_t (sizeProd g)" by (rule cellOf_valid(2) [OF assms(1) v])
  show "indexLinear g p = cellOf g p" by (rule indexLinear_valid [OF assms(1) v])
  show "int (cellOf g p) = linearOf g (index g p)"
    using cellOf_valid(1) [OF assms(1) v] linearOf_range(1) [OF v] by simp
next
  have cells: "\<forall>p \<in> set ps. cellOf g p < length (replicate (to_size_t (sizeProd g)) (0::nat))"
    using assms(2) cellOf_valid(2) [OF assms(1)] by (simp add: validCells_def list_all_iff)
  from countLoop_correct [of "replicate (length ps) 0" ps g "replicate (to_size_t (sizeProd g)) 0" 0, OF _ cells]
  show "\<exists>r. countLoop g ps 0 (replicate (length ps) 0) (replicate (to_size_t (sizeProd g)) 0) = Some r"
    by auto
qed


theorem C9_count_in_range_witness:
  "grid_ok (Grid_init unitBox 1)
   \<and> validCells (Grid_init unitBox 1)
        [Vector3f 1 1 1, Vector3f (1 / 2) (1 / 2) (1 / 2), Vector3f (1 / 4) (1 / 2) (1 / 2)]
   \<and> cellOf (Grid_init unitBox 1) (Vector3f 1 1 1) < to_size_t (sizeProd (Grid_init unitBox 1))
   \<and> cellOf (Grid_init unitBox 1) (Vector3f 1 1 1) = 7"
proof -
  have "cellOf (Grid_init unitBox 1) (Vector3f 1 1 1) = 7"
    unfolding unitGrid
    by (simp add: cellOf_def indexLinear_def linearOf_def index_def floorInt_def unitBox_def to_size_t_def to_uint32_def)
  then show ?thesis
    using C9_count_in_range [OF unitGrid_ok unitGrid_valid] unitGrid_ok unitGrid_valid by simp
qed

text \<open>
  A position left of the grid whose linear index is that of a cell inside the grid: the
  counting pass stores and counts it as cell 1.
\<close>

theorem C9_alias_counterexample:
  "\<not> inGrid (Grid_init unitBox 1) (index (Grid_init unitBox 1) (Vector3f (- (1 / 2)) (3 / 2) (1 / 2)))
   \<and> cellOf (Grid_init unitBox 1) (Vector3f (- (1 / 2)) (3 / 2) (1 / 2)) = 1
   \<and> cellOf (Grid_init unitBox 1) (Vector3f (- (1 / 2)) (3 / 2) (1 / 2))
       < to_size_t (sizeProd (Grid_init unitBox 1))
   \<and> countLoop (Grid_init unitBox 1) [Vector3f (- (1 / 2)) (3 / 2) (1 / 2)] 0 [0] [0, 0, 0, 0, 0, 0, 0, 0]
       = Some ([1], [0, 1, 0, 0, 0, 0, 0, 0])"
proof -
  have c: "cellOf (Grid_init unitBox 1) (Vector3f (- (1 / 2)) (3 / 2) (1 / 2)) = 1"
    unfolding unitGrid
    by (simp add: cellOf_def indexLinear_def linearOf_def index_def floorInt_def unitBox_def to_size_t_def to_uint32_def)
  have n: "\<not> inGrid (Grid_init unitBox 1) (index (Grid_init unitBox 1) (Vector3f (- (1 / 2)) (3 / 2) (1 / 2)))"
    unfolding unitGrid by (simp add: inGrid_def index_def floorInt_def unitBox_def)
  have s: "to_size_t (sizeProd (Grid_init unitBox 1)) = 8"
    by (simp add: unitGrid sizeProd_def to_size_t_def)
  have l: "countLoop (Grid_init unitBox 1) [Vector3f (- (1 / 2)) (3 / 2) (1 / 2)] 0 [0] [0, 0, 0, 0, 0, 0, 0, 0]
       = Some ([1], [0, 1, 0, 0, 0, 0, 0, 0])"
    using c by (subst countLoop.simps, subst countLoop.simps) simp
  show ?thesis using c n s l by simp
qed

text \<open>No clamping: a position one cell left of the origin cell stops the counting pass.\<close>

lemma countLoop_unclamped:
  "cellOf (Grid_init unitBox 1) (Vector3f (- (1 / 2)) (1 / 2) (1 / 2)) = 4294967295
   \<and> countLoop (Grid_init unitBox 1) [Vector3f (- (1 / 2)) (1 / 2) (1 / 2)] 0 [0] [0, 0, 0, 0, 0, 0, 0, 0]
       = None"
proof -
  have c: "cellOf (Grid_init unitBox 1) (Vector3f (- (1 / 2)) (1 / 2) (1 / 2)) = 4294967295"
    unfolding unitGrid
    by (simp add: cellOf_def indexLinear_def linearOf_def index_def floorInt_def unitBox_def to_size_t_def to_uint32_def)
  show ?thesis
    using c by (subst countLoop.simps) simp
qed

text \<open>
  C10. On a particle set whose positions all map to cells of the grid, \<open>Grid::update\<close>
  returns; the callback is called at most once per particle, always with two slots below
  the particle count; the swaps applied to the slots \<open>0, \<dots>, N - 1\<close> give a permutation
  of them, and the caller's position array after the grid stage is the old one read
  through that permutation, so it has the same entries with the same multiplicities.
\<close>

theorem C10_sort_terminates:
  assumes "grid_ok (grid s)" and "validCells (grid s) (positions s)"
  shows "\<exists>g' tr s'.
           Grid_update (grid s) (positions s) (\<lambda>i j log. log @ [(i, j)]) [] = Some (g', tr)
           \<and> length tr \<le> length (positions s)
           \<and> (\<forall>(i, j) \<in> set tr. i < length (positions s) \<and> j < length (positions s))
           \<and> mset (swapsOn tr [0..<length (positions s)]) = mset [0..<length (positions s)]
           \<and> gridStage s = Some s'
           \<and> positions s' = map ((!) (positions s)) (swapsOn tr [0..<length (positions s)])
           \<and> velocities s' = swapsOn tr (velocities s)
           \<and> mset (positions s') = mset (positions s)"
proof -
  let ?g = "grid s" and ?ps = "positions s"
  from gridPlan_correct [OF assms]
  obtain offs inds' tr where
    plan: "gridPlan ?g ?ps = Some (offs, inds', tr)"
    and rng: "\<forall>(a, b) \<in> set tr. a < length ?ps \<and> b < length ?ps"
    and bound: "length tr \<le> length ?ps"
    by blast
  have rng': "\<forall>(a, b) \<in> set tr. a < length [0..<length ?ps] \<and> b < length [0..<length ?ps]"
    using rng by simp
  have a: "Grid_update ?g ?ps (\<lambda>i j log. log @ [(i, j)]) [] = Some (?g\<lparr>cellOffset := offs\<rparr>, tr)"
    by (simp add: Grid_update_plan plan fold_record_swaps)
  have b: "gridStage s = Some (s\<lparr>positions := swapsOn tr ?ps, velocities := swapsOn tr (velocities s),
              grid := ?g\<lparr>cellOffset := offs\<rparr>\<rparr>)"
    by (simp add: gridStage_plan plan)
  show ?thesis
    using a b bound rng mset_swapsOn [OF rng'] mset_swapsOn [OF rng] swapsOn_via_slots [OF rng]
    by auto
qed

theorem C10_sort_terminates_witness:
  "grid_ok (grid (exampleState [Vector3f 1 1 1, Vector3f (1 / 2) (1 / 2) (1 / 2), Vector3f (1 / 4) (1 / 2) (1 / 2)] [splat 0, splat 0, splat 0]))
   \<and> validCells (grid (exampleState [Vector3f 1 1 1, Vector3f (1 / 2) (1 / 2) (1 / 2), Vector3f (1 / 4) (1 / 2) (1 / 2)] [splat 0, splat 0, splat 0]))
        (positions (exampleState [Vector3f 1 1 1, Vector3f (1 / 2) (1 / 2) (1 / 2), Vector3f (1 / 4) (1 / 2) (1 / 2)] [splat 0, splat 0, splat 0]))
   \<and> (\<exists>g' tr. Grid_update (Grid_init unitBox 1)
          [Vector3f 1 1 1, Vector3f (1 / 2) (1 / 2) (1 / 2), Vector3f (1 / 4) (1 / 2) (1 / 2)]
          (\<lambda>i j log. log @ [(i, j)]) [] = Some (g', tr) \<and> length tr \<le> 3)"
proof -
  let ?s = "exampleState [Vector3f 1 1 1, Vector3f (1 / 2) (1 / 2) (1 / 2), Vector3f (1 / 4) (1 / 2) (1 / 2)] [splat 0, splat 0, splat 0]"
  have h1: "grid_ok (grid ?s)" by (simp add: exampleState_def unitGrid_ok)
  have h2: "validCells (grid ?s) (positions ?s)" by (simp add: exampleState_def unitGrid_valid)
  from C10_sort_terminates [OF h1 h2] obtain g' tr where
    "Grid_update (grid ?s) (positions ?s) (\<lambda>i j log. log @ [(i, j)]) [] = Some (g', tr)"
    "length tr \<le> length (positions ?s)"
    by blast
  then have "\<exists>g' tr. Grid_update (Grid_init unitBox 1)
          [Vector3f 1 1 1, Vector3f (1 / 2) (1 / 2) (1 / 2), Vector3f (1 / 4) (1 / 2) (1 / 2)]
          (\<lambda>i j log. log @ [(i, j)]) [] = Some (g', tr) \<and> length tr \<le> 3"
    by (simp add: exampleState_def)
  then show ?thesis using h1 h2 by blast
qed


section \<open>The force pass\<close>

lemma vsub_swap: "vsub b a = vneg (vsub a b)"
  by (simp add: vsub_def vneg_def)

lemma squaredNorm_vneg [simp]: "squaredNorm (vneg a) = squaredNorm a"
  by (simp add: squaredNorm_def dot_def vneg_def)

lemma squaredNorm_swap: "squaredNorm (vsub b a) = squaredNorm (vsub a b)"
  by (subst vsub_swap) simp

lemma vscale_vneg: "vscale c (vneg a) = vneg (vscale c a)"
  by (simp add: vscale_def vneg_def)

lemma spikyGrad_odd: "spikyGrad k (vneg r) rn = vneg (spikyGrad k r rn)"
  by (simp add: spikyGrad_def vscale_vneg)

lemma pressureTerm_antisym: "pressureTerm s j i = vneg (pressureTerm s i j)"
proof -
  have r: "vsub (positions s ! j) (positions s ! i) = vneg (vsub (positions s ! i) (positions s ! j))"
    by (rule vsub_swap)
  show ?thesis
    unfolding pressureTerm_def Let_def r squaredNorm_vneg spikyGrad_odd vscale_vneg
    by (simp add: add.commute)
qed

lemma forceVisit_force:
  "force (fst (forceVisit i j (a, s))) =
     (if i \<noteq> j \<and> squaredNorm (vsub (positions s ! i) (positions s ! j)) < sph_h2 s
         \<and> squaredNorm (vsub (positions s ! i) (positions s ! j)) > 0.00001
      then vsub (force a) (pressureTerm s i j) else force a)"
  by (simp add: forceVisit_def Let_def accumulatePair_def)

lemma vsub_vsub_cancel: "vsub (vsub a p) a = vneg p"
  by (simp add: vsub_def vneg_def)

lemma vneg_vneg [simp]: "vneg (vneg a) = a"
  by (simp add: vneg_def)

lemma vsub_self: "vsub a a = Vector3f 0 0 0"
  by (simp add: vsub_def)

lemma vneg_zero: "vneg (Vector3f 0 0 0) = Vector3f 0 0 0"
  by (simp add: vneg_def)


text \<open>
  C8. For two distinct particles inside the support radius, what the visitor of particle
  \<open>i\<close> adds to its force for neighbour \<open>j\<close> is the negation of what the visitor of particle
  \<open>j\<close> adds for neighbour \<open>i\<close>, in the same state: the pressure term changes sign when the
  two particles are exchanged.
\<close>

theorem C8_pressure_antisymmetric:
  assumes "i \<noteq> j"
    and "0 < squaredNorm (vsub (positions s ! i) (positions s ! j))"
    and "squaredNorm (vsub (positions s ! i) (positions s ! j)) < sph_h2 s"
  shows "vsub (force (fst (forceVisit i j (a, s)))) (force a)
           = vneg (vsub (force (fst (forceVisit j i (b, s)))) (force b))
         \<and> pressureTerm s i j = vneg (pressureTerm s j i)
         \<and> (0.00001 < squaredNorm (vsub (positions s ! i) (positions s ! j)) \<longrightarrow>
              vsub (force (fst (forceVisit i j (a, s)))) (force a) = vneg (pressureTerm s i j))"
proof -
  have sw: "squaredNorm (vsub (positions s ! j) (positions s ! i))
            = squaredNorm (vsub (positions s ! i) (positions s ! j))"
    by (rule squaredNorm_swap)
  have p: "pressureTerm s i j = vneg (pressureTerm s j i)"
    by (subst pressureTerm_antisym [of s i j]) simp
  show ?thesis
  proof (cases "0.00001 < squaredNorm (vsub (positions s ! i) (positions s ! j))")
    case True
    then show ?thesis
      using assms p sw by (simp add: forceVisit_force vsub_vsub_cancel)
  next
    case False
    then show ?thesis
      using assms p sw by (simp add: forceVisit_force vsub_self vneg_zero)
  qed
qed

theorem C8_pressure_antisymmetric_witness:
  "(0::nat) \<noteq> 1
   \<and> 0 < squaredNorm (vsub
        (positions (exampleState [Vector3f (1 / 2) (1 / 2) (1 / 2), Vector3f 1 (1 / 2) (1 / 2)] [splat 0, splat 0]
            \<lparr>densities := [1000, 900], pressures := [10, 20]\<rparr>) ! 0)
        (positions (exampleState [Vector3f (1 / 2) (1 / 2) (1 / 2), Vector3f 1 (1 / 2) (1 / 2)] [splat 0, splat 0]
            \<lparr>densities := [1000, 900], pressures := [10, 20]\<rparr>) ! 1))
   \<and> squaredNorm (vsub
        (positions (exampleState [Vector3f (1 / 2) (1 / 2) (1 / 2), Vector3f 1 (1 / 2) (1 / 2)] [splat 0, splat 0]
            \<lparr>densities := [1000, 900], pressures := [10, 20]\<rparr>) ! 0)
        (positions (exampleState [Vector3f (1 / 2) (1 / 2) (1 / 2), Vector3f 1 (1 / 2) (1 / 2)] [splat 0, splat 0]
            \<lparr>densities := [1000, 900], pressures := [10, 20]\<rparr>) ! 1))
       < sph_h2 (exampleState [Vector3f (1 / 2) (1 / 2) (1 / 2), Vector3f 1 (1 / 2) (1 / 2)] [splat 0, splat 0]
            \<lparr>densities := [1000, 900], pressures := [10, 20]\<rparr>)
   \<and> pressureTerm (exampleState [Vector3f (1 / 2) (1 / 2) (1 / 2), Vector3f 1 (1 / 2) (1 / 2)] [splat 0, splat 0]
            \<lparr>densities := [1000, 900], pressures := [10, 20]\<rparr>) 0 1
       = vneg (pressureTerm (exampleState [Vector3f (1 / 2) (1 / 2) (1 / 2), Vector3f 1 (1 / 2) (1 / 2)] [splat 0, splat 0]
            \<lparr>densities := [1000, 900], pressures := [10, 20]\<rparr>) 1 0)"
proof -
  let ?s = "exampleState [Vector3f (1 / 2) (1 / 2) (1 / 2), Vector3f 1 (1 / 2) (1 / 2)] [splat 0, splat 0]
            \<lparr>densities := [1000, 900], pressures := [10, 20]\<rparr>"
  have h1: "(0::nat) \<noteq> 1" by simp
  have h2: "0 < squaredNorm (vsub (positions ?s ! 0) (positions ?s ! 1))"
    by (simp add: exampleState_def squaredNorm_def dot_def vsub_def)
  have h3: "squaredNorm (vsub (positions ?s ! 0) (positions ?s ! 1)) < sph_h2 ?s"
    by (simp add: exampleState_def squaredNorm_def dot_def vsub_def)
  from C8_pressure_antisymmetric [OF h1 h2 h3]
  have "pressureTerm ?s 0 1 = vneg (pressureTerm ?s 1 0)" by blast
  then show ?thesis using h1 h2 h3 by blast
qed


lemma frameEq_refl: "frameEq s s"
  by (simp add: frameEq_def)

lemma frameEqI:
  "length P = length (positions s) \<Longrightarrow> length F = length (forces s) \<Longrightarrow>
   frameEq s (s\<lparr>positions := P, forces := F\<rparr>)"
  by (simp add: frameEq_def)

lemma frameEqE:
  assumes "frameEq s s'"
  obtains P F where "s' = s\<lparr>positions := P, forces := F\<rparr>"
    and "length P = length (positions s)" and "length F = length (forces s)"
  using assms unfolding frameEq_def by blast

lemma frameEq_trans:
  assumes "frameEq s s'" and "frameEq s' s''"
  shows "frameEq s s''"
proof -
  from assms(1) obtain P F where a: "s' = s\<lparr>positions := P, forces := F\<rparr>"
    and la: "length P = length (positions s)" "length F = length (forces s)"
    by (rule frameEqE)
  from assms(2) obtain P' F' where b: "s'' = s'\<lparr>positions := P', forces := F'\<rparr>"
    and lb: "length P' = length (positions s')" "length F' = length (forces s')"
    by (rule frameEqE)
  have "s'' = s\<lparr>positions := P', forces := F'\<rparr>" unfolding b a by simp
  moreover have "length P' = length (positions s)" "length F' = length (forces s)"
    using la lb a by simp_all
  ultimately show ?thesis using frameEqI by blast
qed

lemma frameEq_fields:
  assumes "frameEq s s'"
  shows "velocities s' = velocities s" and "normals s' = normals s"
    and "densities s' = densities s" and "pressures s' = pressures s"
    and "grid s' = grid s" and "settings s' = settings s" and "kernel s' = kernel s"
    and "sph_h s' = sph_h s" and "particleMass s' = particleMass s"
    and "length (positions s') = length (positions s)"
    and "length (forces s') = length (forces s)"
proof -
  from assms obtain P F where a: "s' = s\<lparr>positions := P, forces := F\<rparr>"
    and la: "length P = length (positions s)" "length F = length (forces s)"
    by (rule frameEqE)
  show "velocities s' = velocities s" "normals s' = normals s"
    "densities s' = densities s" "pressures s' = pressures s"
    "grid s' = grid s" "settings s' = settings s" "kernel s' = kernel s"
    "sph_h s' = sph_h s" "particleMass s' = particleMass s"
    "length (positions s') = length (positions s)"
    "length (forces s') = length (forces s)"
    unfolding a using la by simp_all
qed

lemma forceVisit_frame: "frameEq s (snd (forceVisit i j (a, s)))"
  by (simp add: forceVisit_def Let_def frameEq_def)

lemma fold_forceVisit_frame: "frameEq s (snd (fold (forceVisit i) js (a, s)))"
proof (induction js arbitrary: a s)
  case Nil show ?case by (simp add: frameEq_refl)
next
  case (Cons j js)
  obtain a' s' where v: "forceVisit i j (a, s) = (a', s')" by (cases "forceVisit i j (a, s)")
  have "frameEq s s'" using forceVisit_frame [of s i j a] v by simp
  moreover have "frameEq s' (snd (fold (forceVisit i) js (a', s')))" by (rule Cons.IH)
  ultimately show ?case using v by (simp add: frameEq_trans)
qed

lemma computeForcesTask_frame: "frameEq s (computeForcesTask i s)"
proof -
  let ?as = "fold (forceVisit i) (lookup (grid s) (positions s ! i) (sph_h s)) (ForceAcc_init, s)"
  have f: "frameEq s (snd ?as)" by (rule fold_forceVisit_frame)
  obtain F where t: "computeForcesTask i s = (snd ?as)\<lparr>forces := (forces (snd ?as))[i := F]\<rparr>"
    by (simp add: computeForcesTask_def Let_def)
  have "frameEq (snd ?as) ((snd ?as)\<lparr>forces := (forces (snd ?as))[i := F]\<rparr>)"
    by (simp add: frameEq_def)
  then show ?thesis unfolding t using f frameEq_trans by blast
qed

lemma computeForcesTask_others:
  "k \<noteq> i \<Longrightarrow> forces (computeForcesTask i s) ! k = forces s ! k"
proof -
  assume k: "k \<noteq> i"
  let ?as = "fold (forceVisit i) (lookup (grid s) (positions s ! i) (sph_h s)) (ForceAcc_init, s)"
  have f: "frameEq s (snd ?as)" by (rule fold_forceVisit_frame)
  have same: "forces (snd ?as) = forces s"
  proof -
    have "\<And>j a s. forces (snd (forceVisit i j (a, s))) = forces s"
      by (simp add: forceVisit_def Let_def)
    then have "\<And>js a s. forces (snd (fold (forceVisit i) js (a, s))) = forces s"
    proof -
      fix js a s
      assume h: "\<And>j a s. forces (snd (forceVisit i j (a, s))) = forces s"
      show "forces (snd (fold (forceVisit i) js (a, s))) = forces s"
      proof (induction js arbitrary: a s)
        case Nil show ?case by simp
      next
        case (Cons j js)
        obtain a' s' where v: "forceVisit i j (a, s) = (a', s')" by (cases "forceVisit i j (a, s)")
        have "forces s' = forces s" using h [of j a s] v by simp
        then show ?case using Cons.IH [of a' s'] v by simp
      qed
    qed
    then show ?thesis .
  qed
  obtain F where t: "computeForcesTask i s = (snd ?as)\<lparr>forces := (forces (snd ?as))[i := F]\<rparr>"
    by (simp add: computeForcesTask_def Let_def)
  show ?thesis unfolding t using k same by simp
qed

lemma fold_tasks_frame: "frameEq s (fold computeForcesTask is s)"
proof (induction "is" arbitrary: s)
  case Nil show ?case by (simp add: frameEq_refl)
next
  case (Cons i "is")
  have "frameEq s (computeForcesTask i s)" by (rule computeForcesTask_frame)
  moreover have "frameEq (computeForcesTask i s) (fold computeForcesTask is (computeForcesTask i s))"
    by (rule Cons.IH)
  ultimately show ?case by (simp add: frameEq_trans)
qed

lemma computeForces_frame: "frameEq s (computeForces s)"
  by (simp add: computeForces_def iterate_def fold_tasks_frame)

lemma squaredNorm_zero_iff: "squaredNorm (vsub a b) = 0 \<longleftrightarrow> a = b"
proof -
  have "squaredNorm (vsub a b) = (vx a - vx b)\<^sup>2 + (vy a - vy b)\<^sup>2 + (vz a - vz b)\<^sup>2"
    by (simp add: squaredNorm_def dot_def vsub_def power2_eq_square)
  moreover have "(vx a - vx b)\<^sup>2 + (vy a - vy b)\<^sup>2 + (vz a - vz b)\<^sup>2 = 0
                 \<longleftrightarrow> vx a = vx b \<and> vy a = vy b \<and> vz a = vz b"
    by (simp add: add_nonneg_eq_0_iff)
  moreover have "(vx a = vx b \<and> vy a = vy b \<and> vz a = vz b) \<longleftrightarrow> a = b"
    by (cases a, cases b) auto
  ultimately show ?thesis by simp
qed

lemma forceVisit_distinct:
  assumes "distinct (positions s)" and "i < length (positions s)" and "j < length (positions s)"
  shows "snd (forceVisit i j (a, s)) = s"
proof -
  have "i \<noteq> j \<Longrightarrow> squaredNorm (vsub (positions s ! i) (positions s ! j)) \<noteq> 0"
    using assms by (simp add: squaredNorm_zero_iff nth_eq_iff_index_eq)
  then show ?thesis by (simp add: forceVisit_def Let_def)
qed

lemma fold_forceVisit_distinct:
  assumes "distinct (positions s)" and "i < length (positions s)"
    and "\<forall>j \<in> set js. j < length (positions s)"
  shows "snd (fold (forceVisit i) js (a, s)) = s"
  using assms(3)
proof (induction js arbitrary: a)
  case Nil show ?case by simp
next
  case (Cons j js)
  obtain a' s' where v: "forceVisit i j (a, s) = (a', s')" by (cases "forceVisit i j (a, s)")
  have "s' = s" using forceVisit_distinct [OF assms(1,2), of j a] Cons.prems v by simp
  then show ?case using Cons.IH [of a'] Cons.prems v by simp
qed

lemma lookup_bound:
  assumes "grid_ok g" and "sorted (cellOffset g)" and "last (cellOffset g) \<le> N"
    and "j \<in> set (lookup g pos radius)"
  shows "j < N"
proof -
  from assms(4) obtain c where "c \<in> set (lookupCells g pos radius)" "j \<in> set (cellSlots g c)"
    by (auto simp: lookup_def)
  then show ?thesis
    using cellSlots_bound [OF assms(1-3) lookupCells_inGrid] by blast
qed

lemma computeForcesTask_distinct:
  assumes "grid_ok (grid s)" and "sorted (cellOffset (grid s))"
    and "last (cellOffset (grid s)) \<le> length (positions s)"
    and "distinct (positions s)" and "i < length (positions s)"
  shows "positions (computeForcesTask i s) = positions s"
proof -
  let ?js = "lookup (grid s) (positions s ! i) (sph_h s)"
  have b: "\<forall>j \<in> set ?js. j < length (positions s)"
    using lookup_bound [OF assms(1-3)] by blast
  have "snd (fold (forceVisit i) ?js (ForceAcc_init, s)) = s"
    by (rule fold_forceVisit_distinct [OF assms(4,5) b])
  then show ?thesis by (simp add: computeForcesTask_def Let_def)
qed

lemma fold_tasks_distinct:
  assumes "grid_ok (grid s)" and "sorted (cellOffset (grid s))"
    and "last (cellOffset (grid s)) \<le> length (positions s)"
    and "distinct (positions s)" and "\<forall>i \<in> set is. i < length (positions s)"
  shows "positions (fold computeForcesTask is s) = positions s"
  using assms
proof (induction "is" arbitrary: s)
  case Nil show ?case by simp
next
  case (Cons i "is")
  let ?s' = "computeForcesTask i s"
  have p: "positions ?s' = positions s"
    using computeForcesTask_distinct [OF Cons.prems(1-4)] Cons.prems(5) by simp
  have g: "grid ?s' = grid s" by (rule frameEq_fields(5) [OF computeForcesTask_frame])
  have "positions (fold computeForcesTask is ?s') = positions ?s'"
    using Cons.prems by (intro Cons.IH) (simp_all add: p g)
  then show ?case using p by simp
qed


lemma pairGrid_cells_nudged:
  "lookupCells pairGrid (Vector3f (50001 / 100000) (50001 / 100000) (50001 / 100000)) 1 =
     [Vector3i 0 0 0, Vector3i 1 0 0, Vector3i 0 1 0, Vector3i 1 1 0,
      Vector3i 0 0 1, Vector3i 1 0 1, Vector3i 0 1 1, Vector3i 1 1 1]"
  unfolding pairGrid_eq
  by (simp add: lookupCells_def index_def floorInt_def unitBox_def vsub_def vadd_def splat_def Let_def upto.simps)

lemma pairGrid_lookup_nudged:
  "lookup pairGrid (Vector3f (50001 / 100000) (50001 / 100000) (50001 / 100000)) 1 = [0, 1]"
  unfolding lookup_def pairGrid_cells_nudged
  by (simp add: pairGrid_eq cellSlots_def linearOf_def to_size_t_def upt_rec)

lemma computeForcesTask_positions:
  "positions (computeForcesTask i s)
     = positions (snd (fold (forceVisit i) (lookup (grid s) (positions s ! i) (sph_h s)) (ForceAcc_init, s)))"
  by (simp add: computeForcesTask_def Let_def)

lemma coincident_task0:
  assumes g: "grid s = pairGrid" and h: "sph_h s = 1" and h2: "sph_h2 s = 1"
    and p: "positions s = [Vector3f (1 / 2) (1 / 2) (1 / 2), Vector3f (1 / 2) (1 / 2) (1 / 2)]"
  shows "positions (computeForcesTask 0 s)
         = [Vector3f (1 / 2) (1 / 2) (1 / 2), Vector3f (50001 / 100000) (50001 / 100000) (50001 / 100000)]"
  unfolding computeForcesTask_positions g h p nth_Cons_0 pairGrid_lookup
  by (simp add: forceVisit_def Let_def h2 p squaredNorm_def dot_def vsub_def vadd_def splat_def)

lemma coincident_task1:
  assumes g: "grid s = pairGrid" and h: "sph_h s = 1" and h2: "sph_h2 s = 1"
    and p: "positions s = [Vector3f (1 / 2) (1 / 2) (1 / 2), Vector3f (50001 / 100000) (50001 / 100000) (50001 / 100000)]"
  shows "positions (computeForcesTask 1 s)
         = [Vector3f (1 / 2) (1 / 2) (1 / 2), Vector3f (50001 / 100000) (50001 / 100000) (50001 / 100000)]"
proof -
  have l: "lookup (grid s) (positions s ! 1) (sph_h s) = [0, 1]"
    unfolding g h p using pairGrid_lookup_nudged by simp
  show ?thesis
    unfolding computeForcesTask_positions l
    by (simp add: forceVisit_def Let_def h2 p squaredNorm_def dot_def vsub_def)
qed

lemma frameEq_h2: "frameEq s s' \<Longrightarrow> sph_h2 s' = sph_h2 s"
proof -
  assume "frameEq s s'"
  then obtain P F where "s' = s\<lparr>positions := P, forces := F\<rparr>" by (rule frameEqE)
  then show ?thesis by simp
qed

lemma coincident_pair_nudged:
  assumes g: "grid s = pairGrid" and h: "sph_h s = 1" and h2: "sph_h2 s = 1"
    and p: "positions s = [Vector3f (1 / 2) (1 / 2) (1 / 2), Vector3f (1 / 2) (1 / 2) (1 / 2)]"
  shows "positions (computeForces s)
         = [Vector3f (1 / 2) (1 / 2) (1 / 2), Vector3f (50001 / 100000) (50001 / 100000) (50001 / 100000)]"
proof -
  let ?s1 = "computeForcesTask 0 s"
  have f1: "frameEq s ?s1" by (rule computeForcesTask_frame)
  have g1: "grid ?s1 = pairGrid" "sph_h ?s1 = 1" "sph_h2 ?s1 = 1"
    using frameEq_fields(5,8) [OF f1] frameEq_h2 [OF f1] g h h2 by simp_all
  have "computeForces s = computeForcesTask 1 ?s1"
    by (simp add: computeForces_def iterate_def p upt_rec)
  then show ?thesis
    using coincident_task1 [OF g1 coincident_task0 [OF g h h2 p]] by simp
qed


text \<open>
  C5. The force pass leaves velocities, normals, densities and pressures as they were and
  keeps the lengths of the position and force arrays; a task writes no force entry but its
  own; and when no two particles have the same position (on a grid as \<open>update\<close> leaves it)
  the positions are unchanged too.
\<close>

theorem C5_force_frame:
  "velocities (computeForces s) = velocities s \<and> normals (computeForces s) = normals s
   \<and> densities (computeForces s) = densities s \<and> pressures (computeForces s) = pressures s
   \<and> length (positions (computeForces s)) = length (positions s)
   \<and> length (forces (computeForces s)) = length (forces s)
   \<and> (\<forall>i k. k \<noteq> i \<longrightarrow> forces (computeForcesTask i s) ! k = forces s ! k)
   \<and> (grid_ok (grid s) \<and> sorted (cellOffset (grid s))
        \<and> last (cellOffset (grid s)) \<le> length (positions s) \<and> distinct (positions s)
       \<longrightarrow> positions (computeForces s) = positions s)"
proof -
  note f = frameEq_fields [OF computeForces_frame [of s]]
  have "grid_ok (grid s) \<and> sorted (cellOffset (grid s))
        \<and> last (cellOffset (grid s)) \<le> length (positions s) \<and> distinct (positions s)
       \<longrightarrow> positions (computeForces s) = positions s"
    using fold_tasks_distinct [of s "[0..<length (positions s)]"]
    by (simp add: computeForces_def iterate_def)
  then show ?thesis
    using f(1-4) f(10,11) computeForcesTask_others by blast
qed

theorem C5_force_frame_witness:
  "grid_ok (grid (exampleState [Vector3f (1 / 2) (1 / 2) (1 / 2), Vector3f 1 (1 / 2) (1 / 2)] [splat 0, splat 0] \<lparr>grid := pairGrid\<rparr>))
   \<and> sorted (cellOffset (grid (exampleState [Vector3f (1 / 2) (1 / 2) (1 / 2), Vector3f 1 (1 / 2) (1 / 2)] [splat 0, splat 0] \<lparr>grid := pairGrid\<rparr>)))
   \<and> last (cellOffset (grid (exampleState [Vector3f (1 / 2) (1 / 2) (1 / 2), Vector3f 1 (1 / 2) (1 / 2)] [splat 0, splat 0] \<lparr>grid := pairGrid\<rparr>)))
       \<le> length (positions (exampleState [Vector3f (1 / 2) (1 / 2) (1 / 2), Vector3f 1 (1 / 2) (1 / 2)] [splat 0, splat 0] \<lparr>grid := pairGrid\<rparr>))
   \<and> distinct (positions (exampleState [Vector3f (1 / 2) (1 / 2) (1 / 2), Vector3f 1 (1 / 2) (1 / 2)] [splat 0, splat 0] \<lparr>grid := pairGrid\<rparr>))
   \<and> positions (computeForces (exampleState [Vector3f (1 / 2) (1 / 2) (1 / 2), Vector3f 1 (1 / 2) (1 / 2)] [splat 0, splat 0] \<lparr>grid := pairGrid\<rparr>))
       = [Vector3f (1 / 2) (1 / 2) (1 / 2), Vector3f 1 (1 / 2) (1 / 2)]
   \<and> (1::nat) \<noteq> 0
   \<and> forces (computeForcesTask 0 (exampleState [Vector3f (1 / 2) (1 / 2) (1 / 2), Vector3f 1 (1 / 2) (1 / 2)] [splat 0, splat 0] \<lparr>grid := pairGrid\<rparr>)) ! 1
       = splat 0"
proof -
  let ?s = "exampleState [Vector3f (1 / 2) (1 / 2) (1 / 2), Vector3f 1 (1 / 2) (1 / 2)] [splat 0, splat 0] \<lparr>grid := pairGrid\<rparr>"
  have h: "grid_ok (grid ?s)" "sorted (cellOffset (grid ?s))"
    "last (cellOffset (grid ?s)) \<le> length (positions ?s)" "distinct (positions ?s)"
    using pairGrid_ok by (simp_all add: exampleState_def)
  have p: "positions ?s = [Vector3f (1 / 2) (1 / 2) (1 / 2), Vector3f 1 (1 / 2) (1 / 2)]"
    "forces ?s ! 1 = splat 0"
    by (simp_all add: exampleState_def)
  have n: "(1::nat) \<noteq> 0" by simp
  from C5_force_frame [of ?s] h n
  have "positions (computeForces ?s) = positions ?s"
    "forces (computeForcesTask 0 ?s) ! 1 = forces ?s ! 1"
    by blast+
  then show ?thesis using h n p by simp
qed

text \<open>
  Two particles at the same place: the force pass moves the second one.
\<close>

theorem C5_nudge_counterexample:
  "positions (computeForces
      (exampleState [Vector3f (1 / 2) (1 / 2) (1 / 2), Vector3f (1 / 2) (1 / 2) (1 / 2)] [splat 0, splat 0]
         \<lparr>grid := pairGrid\<rparr>))
     = [Vector3f (1 / 2) (1 / 2) (1 / 2), Vector3f (50001 / 100000) (50001 / 100000) (50001 / 100000)]
   \<and> positions (computeForces
      (exampleState [Vector3f (1 / 2) (1 / 2) (1 / 2), Vector3f (1 / 2) (1 / 2) (1 / 2)] [splat 0, splat 0]
         \<lparr>grid := pairGrid\<rparr>))
     \<noteq> positions
      (exampleState [Vector3f (1 / 2) (1 / 2) (1 / 2), Vector3f (1 / 2) (1 / 2) (1 / 2)] [splat 0, splat 0]
         \<lparr>grid := pairGrid\<rparr>)"
proof -
  let ?s0 = "exampleState [Vector3f (1 / 2) (1 / 2) (1 / 2), Vector3f (1 / 2) (1 / 2) (1 / 2)] [splat 0, splat 0] \<lparr>grid := pairGrid\<rparr>"
  have "positions (computeForces ?s0)
     = [Vector3f (1 / 2) (1 / 2) (1 / 2), Vector3f (50001 / 100000) (50001 / 100000) (50001 / 100000)]"
    by (rule coincident_pair_nudged) (simp_all add: exampleState_def)
  moreover have "positions ?s0 = [Vector3f (1 / 2) (1 / 2) (1 / 2), Vector3f (1 / 2) (1 / 2) (1 / 2)]"
    by (simp add: exampleState_def)
  ultimately show ?thesis by simp
qed



section \<open>The pairs a task accumulates\<close>

lemma nudgedPositions_length [simp]: "length (nudgedPositions s i js) = length (positions s)"
  by (simp add: nudgedPositions_def)

lemma nudgedPositions_nth:
  "k < length (positions s) \<Longrightarrow>
   nudgedPositions s i js ! k =
     (if k \<in> set js \<and> k \<noteq> i \<and> positions s ! k = positions s ! i
      then vadd (positions s ! k) (splat 0.00001) else positions s ! k)"
  by (simp add: nudgedPositions_def)

lemma nudgedPositions_Nil [simp]: "nudgedPositions s i [] = positions s"
  by (simp add: nudgedPositions_def map_nth)

lemma squaredNorm_nudge: "squaredNorm (vsub p (vadd p (splat (1 / 100000)))) = 3 / 10000000000"
  by (simp add: squaredNorm_def dot_def vsub_def vadd_def splat_def)

lemma accumulatePair_positions:
  assumes "Q ! i = positions s ! i" and "Q ! j = positions s ! j"
  shows "accumulatePair (s\<lparr>positions := Q\<rparr>) i j a = accumulatePair s i j a"
  using assms by (simp add: accumulatePair_def pressureTerm_def correctionFactor_def Let_def)

lemma forceVisit_at_nudged:
  assumes i: "i < length (positions s)" and j: "j < length (positions s)"
  shows "forceVisit i j (a, s\<lparr>positions := nudgedPositions s i js\<rparr>)
         = ((if contributes s i j then accumulatePair s i j a else a),
            s\<lparr>positions := nudgedPositions s i (js @ [j])\<rparr>)"
proof -
  let ?P = "positions s"
  let ?Q = "nudgedPositions s i js"
  let ?s' = "s\<lparr>positions := ?Q\<rparr>"
  have Qi: "?Q ! i = ?P ! i" using i by (simp add: nudgedPositions_nth)
  have h2: "sph_h2 ?s' = sph_h2 s" by simp
  show ?thesis
  proof (cases "j = i")
    case True
    have "nudgedPositions s i (js @ [j]) = ?Q"
      using True by (auto simp: nudgedPositions_def)
    then show ?thesis using True by (simp add: forceVisit_def contributes_def)
  next
    case ne: False
    show ?thesis
    proof (cases "?P ! j = ?P ! i")
      case diff: False
      have Qj: "?Q ! j = ?P ! j" using j diff by (simp add: nudgedPositions_nth)
      have same: "nudgedPositions s i (js @ [j]) = ?Q"
        using diff by (auto simp: nudgedPositions_def)
      have nz: "squaredNorm (vsub (?P ! i) (?P ! j)) \<noteq> 0"
        using diff by (simp add: squaredNorm_zero_iff)
      have acc: "accumulatePair ?s' i j a = accumulatePair s i j a"
        by (rule accumulatePair_positions [OF Qi Qj])
      show ?thesis
        unfolding same
        using ne nz acc by (simp add: forceVisit_def Let_def contributes_def Qi Qj)
    next
      case eq: True
      have nc: "\<not> contributes s i j" using eq by (simp add: contributes_def vsub_def squaredNorm_def dot_def)
      show ?thesis
      proof (cases "j \<in> set js")
        case True
        have Qj: "?Q ! j = vadd (?P ! i) (splat 0.00001)"
          using j ne eq True by (simp add: nudgedPositions_nth)
        have same: "nudgedPositions s i (js @ [j]) = ?Q"
          using True by (auto simp: nudgedPositions_def)
        show ?thesis
          unfolding same
          using ne nc by (simp add: forceVisit_def Let_def Qi Qj squaredNorm_nudge)
      next
        case False
        have Qj: "?Q ! j = ?P ! i" using j eq False by (simp add: nudgedPositions_nth)
        have r0: "squaredNorm (vsub (?P ! i) (?P ! i)) = 0"
          by (simp add: squaredNorm_zero_iff)
        have upd: "?Q[j := vadd (?P ! i) (splat 0.00001)] = nudgedPositions s i (js @ [j])"
        proof (rule nth_equalityI)
          show "length (?Q[j := vadd (?P ! i) (splat 0.00001)]) = length (nudgedPositions s i (js @ [j]))"
            by simp
        next
          fix k assume "k < length (?Q[j := vadd (?P ! i) (splat 0.00001)])"
          then have k: "k < length ?P" by simp
          show "?Q[j := vadd (?P ! i) (splat 0.00001)] ! k = nudgedPositions s i (js @ [j]) ! k"
            using k j ne eq by (cases "k = j") (simp_all add: nudgedPositions_nth)
        qed
        show ?thesis
          using ne nc upd by (simp add: forceVisit_def Let_def Qi Qj r0)
      qed
    qed
  qed
qed

lemma fold_forceVisit_char:
  assumes "i < length (positions s)" and "\<forall>j \<in> set js. j < length (positions s)"
  shows "fold (forceVisit i) js (a, s)
         = (fold (accumulatePair s i) (filter (contributes s i) js) a,
            s\<lparr>positions := nudgedPositions s i js\<rparr>)"
  using assms(2)
proof (induction js rule: rev_induct)
  case Nil
  show ?case by simp
next
  case (snoc j js)
  then have IH: "fold (forceVisit i) js (a, s)
         = (fold (accumulatePair s i) (filter (contributes s i) js) a,
            s\<lparr>positions := nudgedPositions s i js\<rparr>)"
    and j: "j < length (positions s)" by simp_all
  show ?case
    by (simp add: IH forceVisit_at_nudged [OF assms(1) j])
qed

lemma computeForcesTask_char:
  assumes "grid_ok (grid s)" and "sorted (cellOffset (grid s))"
    and "last (cellOffset (grid s)) \<le> length (positions s)" and "i < length (positions s)"
  shows "computeForcesTask i s
         = s\<lparr>positions := nudgedPositions s i (lookup (grid s) (positions s ! i) (sph_h s)),
             forces := (forces s)[i := forceTotal s
               (fold (accumulatePair s i)
                  (filter (contributes s i) (lookup (grid s) (positions s ! i) (sph_h s)))
                  ForceAcc_init)]\<rparr>"
proof -
  let ?js = "lookup (grid s) (positions s ! i) (sph_h s)"
  have b: "\<forall>j \<in> set ?js. j < length (positions s)"
    using lookup_bound [OF assms(1-3)] by blast
  show ?thesis
    unfolding computeForcesTask_def Let_def fold_forceVisit_char [OF assms(4) b]
    by (simp add: forceTotal_def)
qed

lemma neighbourGrid_eq:
  "neighbourGrid = \<lparr> g_bounds = unitBox, cellSize = 1, invCellSize = 1, gsize = Vector3i 2 2 2,
       cellOffset = [0, 1, 2, 2, 2, 2, 2, 2, 2] \<rparr>"
  by (simp add: neighbourGrid_def unitGrid)

lemma neighbourGrid_ok:
  "grid_ok neighbourGrid \<and> sorted (cellOffset neighbourGrid) \<and> last (cellOffset neighbourGrid) \<le> 2"
  by (simp add: neighbourGrid_eq grid_ok_def sizeProd_def to_size_t_def)

lemma neighbourGrid_cells:
  "lookupCells neighbourGrid (Vector3f (1 / 2) (1 / 2) (1 / 2)) 1 =
     [Vector3i 0 0 0, Vector3i 1 0 0, Vector3i 0 1 0, Vector3i 1 1 0,
      Vector3i 0 0 1, Vector3i 1 0 1, Vector3i 0 1 1, Vector3i 1 1 1]"
  unfolding neighbourGrid_eq
  by (simp add: lookupCells_def index_def floorInt_def unitBox_def vsub_def vadd_def splat_def Let_def upto.simps)

lemma neighbourGrid_lookup:
  "lookup neighbourGrid (Vector3f (1 / 2) (1 / 2) (1 / 2)) 1 = [0, 1]"
  unfolding lookup_def neighbourGrid_cells
  by (simp add: neighbourGrid_eq cellSlots_def linearOf_def to_size_t_def upt_rec)

lemma neighbourState_fields:
  "grid neighbourState = neighbourGrid" "sph_h neighbourState = 1" "sph_h2 neighbourState = 1"
  "positions neighbourState = [Vector3f (1 / 2) (1 / 2) (1 / 2), Vector3f 1 (1 / 2) (1 / 2)]"
  "velocities neighbourState = [Vector3f 1 0 0, Vector3f 0 0 0]"
  "normals neighbourState = [Vector3f 0 1 0, Vector3f 0 0 0]"
  "densities neighbourState = [1000, 900]" "pressures neighbourState = [10, 20]"
  "forces neighbourState = [Vector3f 0 0 0, Vector3f 0 0 0]"
  "restDensity neighbourState = 1000" "kernel neighbourState = Kernel_init 1"
  "particleMass2 neighbourState = 15625"
  by (simp_all add: neighbourState_def exampleState_def splat_def)

lemma sqrt_quarter: "sqrt (1 / 4) = 1 / 2"
  by (rule real_sqrt_unique) (simp_all add: power2_eq_square)

lemma neighbour_r2:
  "squaredNorm (vsub (positions neighbourState ! 0) (positions neighbourState ! 1)) = 1 / 4"
  by (simp add: neighbourState_fields squaredNorm_def dot_def vsub_def)

lemma neighbour_accumulated:
  "forceViscosity (accumulatePair neighbourState 0 1 ForceAcc_init) = Vector3f (- (1 / 1800)) 0 0"
  "forceCurvature (accumulatePair neighbourState 0 1 ForceAcc_init) = Vector3f 0 (20 / 19) 0"
  "forceCohesion (accumulatePair neighbourState 0 1 ForceAcc_init) = Vector3f (- (5 / 608)) 0 0"
  "force (accumulatePair neighbourState 0 1 ForceAcc_init) = Vector3f (- (7025 / (1152 * pi))) 0 0"
  unfolding accumulatePair_def pressureTerm_def Let_def neighbour_r2 sqrt_quarter
  by (simp_all add: neighbourState_fields ForceAcc_init_def Vector3f_default_def splat_def
      correctionFactor_def viscosityLaplace_def surfaceTension_def spikyGrad_def Kernel_init_def
      vsub_def vadd_def vscale_def sqr_def cube_def field_simps)

lemma stateBeforeTask_frame: "frameEq s (stateBeforeTask s i)"
  by (simp add: stateBeforeTask_def fold_tasks_frame)

lemma stateBeforeTask_steps:
  "stateBeforeTask s 0 = s"
  "stateBeforeTask s (Suc k) = computeForcesTask k (stateBeforeTask s k)"
  "computeForces s = stateBeforeTask s (length (positions s))"
  by (simp_all add: stateBeforeTask_def computeForces_def iterate_def)

text \<open>
  C4. The task of particle \<open>i\<close>, on a grid as \<open>update\<close> leaves it, accumulates
  \<open>accumulatePair\<close> over exactly those candidates \<open>j \<noteq> i\<close> with \<open>0.00001 < r\<^sup>2 < h\<^sup>2\<close>, in the
  order of the lookup, writes the total into its own force entry, and moves every
  candidate \<open>j \<noteq> i\<close> at the very position of particle \<open>i\<close> by 0.00001 per component;
  nothing else changes, so a candidate with \<open>0 < r\<^sup>2 \<le> 0.00001\<close> is neither accumulated nor
  moved. The same holds of a single call of the visitor. What is accumulated for a pair is
  the pressure term, the cohesion and curvature terms, and the viscosity term when the
  density of \<open>j\<close> exceeds 0.0001. The pass is these tasks in slot order, each started in
  the state its predecessor left, on the same grid and with as many particles.
\<close>

theorem C4_pair_filter:
  assumes "grid_ok (grid s)" and "sorted (cellOffset (grid s))"
    and "last (cellOffset (grid s)) \<le> length (positions s)" and "i < length (positions s)"
  shows "computeForcesTask i s
           = s\<lparr>positions := nudgedPositions s i (lookup (grid s) (positions s ! i) (sph_h s)),
               forces := (forces s)[i := forceTotal s
                 (fold (accumulatePair s i)
                    (filter (contributes s i) (lookup (grid s) (positions s ! i) (sph_h s)))
                    ForceAcc_init)]\<rparr>
       \<and> (\<forall>j a. j < length (positions s) \<longrightarrow>
             forceVisit i j (a, s)
               = ((if contributes s i j then accumulatePair s i j a else a),
                  s\<lparr>positions := nudgedPositions s i [j]\<rparr>))
       \<and> (\<forall>j a. force (accumulatePair s i j a) = vsub (force a) (pressureTerm s i j)
             \<and> forceCohesion (accumulatePair s i j a)
                 = vadd (forceCohesion a)
                     (vscale (surfaceTension (kernel s)
                                (sqrt (squaredNorm (vsub (positions s ! i) (positions s ! j)))))
                        (vscale (correctionFactor s i j) (vsub (positions s ! i) (positions s ! j))))
             \<and> forceCurvature (accumulatePair s i j a)
                 = vadd (forceCurvature a)
                     (vscale (correctionFactor s i j) (vsub (normals s ! i) (normals s ! j)))
             \<and> forceViscosity (accumulatePair s i j a)
                 = (if densities s ! j > 0.0001
                    then vsub (forceViscosity a)
                           (vscale (viscosityLaplace (kernel s)
                                      (sqrt (squaredNorm (vsub (positions s ! i) (positions s ! j))))
                                    / densities s ! j)
                              (vsub (velocities s ! i) (velocities s ! j)))
                    else forceViscosity a))
       \<and> stateBeforeTask s 0 = s
       \<and> (\<forall>k. stateBeforeTask s (Suc k) = computeForcesTask k (stateBeforeTask s k)
             \<and> grid (stateBeforeTask s k) = grid s
             \<and> length (positions (stateBeforeTask s k)) = length (positions s))
       \<and> computeForces s = stateBeforeTask s (length (positions s))"
proof (intro conjI allI impI)
  show "computeForcesTask i s
           = s\<lparr>positions := nudgedPositions s i (lookup (grid s) (positions s ! i) (sph_h s)),
               forces := (forces s)[i := forceTotal s
                 (fold (accumulatePair s i)
                    (filter (contributes s i) (lookup (grid s) (positions s ! i) (sph_h s)))
                    ForceAcc_init)]\<rparr>"
    by (rule computeForcesTask_char [OF assms])
next
  fix j a assume j: "j < length (positions s)"
  show "forceVisit i j (a, s)
          = ((if contributes s i j then accumulatePair s i j a else a),
             s\<lparr>positions := nudgedPositions s i [j]\<rparr>)"
    using forceVisit_at_nudged [OF assms(4) j, of a "[]"] by simp
next
  fix k
  show "grid (stateBeforeTask s k) = grid s"
    by (rule frameEq_fields(5) [OF stateBeforeTask_frame])
  show "length (positions (stateBeforeTask s k)) = length (positions s)"
    by (rule frameEq_fields(10) [OF stateBeforeTask_frame])
qed (simp_all add: accumulatePair_def Let_def stateBeforeTask_steps)


theorem C4_pair_filter_witness:
  "grid_ok (grid neighbourState) \<and> sorted (cellOffset (grid neighbourState))
   \<and> last (cellOffset (grid neighbourState)) \<le> length (positions neighbourState)
   \<and> 0 < length (positions neighbourState)
   \<and> lookup (grid neighbourState) (positions neighbourState ! 0) (sph_h neighbourState) = [0, 1]
   \<and> filter (contributes neighbourState 0) [0, 1] = [1]
   \<and> computeForcesTask 0 neighbourState
       = neighbourState\<lparr>forces :=
           [forceTotal neighbourState (accumulatePair neighbourState 0 1 ForceAcc_init), Vector3f 0 0 0]\<rparr>
   \<and> force (accumulatePair neighbourState 0 1 ForceAcc_init) = Vector3f (- (7025 / (1152 * pi))) 0 0
   \<and> forceViscosity (accumulatePair neighbourState 0 1 ForceAcc_init) = Vector3f (- (1 / 1800)) 0 0
   \<and> forceCohesion (accumulatePair neighbourState 0 1 ForceAcc_init) = Vector3f (- (5 / 608)) 0 0
   \<and> forceCurvature (accumulatePair neighbourState 0 1 ForceAcc_init) = Vector3f 0 (20 / 19) 0"
proof -
  have h: "grid_ok (grid neighbourState)" "sorted (cellOffset (grid neighbourState))"
    "last (cellOffset (grid neighbourState)) \<le> length (positions neighbourState)"
    "0 < length (positions neighbourState)"
    using neighbourGrid_ok by (simp_all add: neighbourState_fields)
  have l: "lookup (grid neighbourState) (positions neighbourState ! 0) (sph_h neighbourState) = [0, 1]"
    by (simp add: neighbourState_fields neighbourGrid_lookup)
  have c: "filter (contributes neighbourState 0) [0, 1] = [1]"
    using neighbour_r2 by (simp add: contributes_def neighbourState_fields)
  have n: "nudgedPositions neighbourState 0 [0, 1] = positions neighbourState"
    by (simp add: nudgedPositions_def neighbourState_fields upt_rec)
  from C4_pair_filter [OF h]
  have "computeForcesTask 0 neighbourState
        = neighbourState\<lparr>positions := nudgedPositions neighbourState 0
              (lookup (grid neighbourState) (positions neighbourState ! 0) (sph_h neighbourState)),
            forces := (forces neighbourState)[0 := forceTotal neighbourState
              (fold (accumulatePair neighbourState 0)
                 (filter (contributes neighbourState 0)
                    (lookup (grid neighbourState) (positions neighbourState ! 0) (sph_h neighbourState)))
                 ForceAcc_init)]\<rparr>"
    by blast
  then have t: "computeForcesTask 0 neighbourState
       = neighbourState\<lparr>forces :=
           [forceTotal neighbourState (accumulatePair neighbourState 0 1 ForceAcc_init), Vector3f 0 0 0]\<rparr>"
    unfolding l c n by (simp add: neighbourState_fields)
  show ?thesis
    using h l c t neighbour_accumulated by blast
qed

text \<open>
  Two particles one thousandth apart: inside the support, not coincident, and the visitor
  neither accumulates nor nudges.
\<close>

theorem C4_small_distance_counterexample:
  "0 < squaredNorm (vsub
        (positions (exampleState [Vector3f (1 / 2) (1 / 2) (1 / 2), Vector3f (501 / 1000) (1 / 2) (1 / 2)] [splat 0, splat 0]) ! 0)
        (positions (exampleState [Vector3f (1 / 2) (1 / 2) (1 / 2), Vector3f (501 / 1000) (1 / 2) (1 / 2)] [splat 0, splat 0]) ! 1))
   \<and> squaredNorm (vsub
        (positions (exampleState [Vector3f (1 / 2) (1 / 2) (1 / 2), Vector3f (501 / 1000) (1 / 2) (1 / 2)] [splat 0, splat 0]) ! 0)
        (positions (exampleState [Vector3f (1 / 2) (1 / 2) (1 / 2), Vector3f (501 / 1000) (1 / 2) (1 / 2)] [splat 0, splat 0]) ! 1))
       < sph_h2 (exampleState [Vector3f (1 / 2) (1 / 2) (1 / 2), Vector3f (501 / 1000) (1 / 2) (1 / 2)] [splat 0, splat 0])
   \<and> forceVisit 0 1 (ForceAcc_init,
        exampleState [Vector3f (1 / 2) (1 / 2) (1 / 2), Vector3f (501 / 1000) (1 / 2) (1 / 2)] [splat 0, splat 0])
     = (ForceAcc_init,
        exampleState [Vector3f (1 / 2) (1 / 2) (1 / 2), Vector3f (501 / 1000) (1 / 2) (1 / 2)] [splat 0, splat 0])"
proof -
  let ?s = "exampleState [Vector3f (1 / 2) (1 / 2) (1 / 2), Vector3f (501 / 1000) (1 / 2) (1 / 2)] [splat 0, splat 0]"
  have r: "squaredNorm (vsub (positions ?s ! 0) (positions ?s ! 1)) = 1 / 1000000"
    by (simp add: exampleState_def squaredNorm_def dot_def vsub_def)
  have "forceVisit 0 1 (ForceAcc_init, ?s) = (ForceAcc_init, ?s)"
    unfolding forceVisit_def Let_def fst_conv snd_conv r by (simp add: exampleState_def)
  then show ?thesis unfolding r by (simp add: exampleState_def)
qed



section \<open>Boundary collisions\<close>

text \<open>The pass never touches the last slot, whatever the state.\<close>

lemma collideFace_other:
  "k \<noteq> i \<Longrightarrow>
   positions (collideFace collisionHandler i outside n depth s) ! k = positions s ! k
   \<and> velocities (collideFace collisionHandler i outside n depth s) ! k = velocities s ! k"
  by (simp add: collideFace_def collisionHandler_def)

lemma collideParticle_other:
  assumes "k \<noteq> i"
  shows "positions (collideParticle collisionHandler i s) ! k = positions s ! k
         \<and> velocities (collideParticle collisionHandler i s) ! k = velocities s ! k"
  unfolding collideParticle_def Let_def
  by (simp add: collideFace_other [OF assms])

lemma fold_collide_other:
  "k \<notin> set xs \<Longrightarrow>
   positions (fold (collideParticle collisionHandler) xs s) ! k = positions s ! k
   \<and> velocities (fold (collideParticle collisionHandler) xs s) ! k = velocities s ! k"
proof (induction xs arbitrary: s)
  case Nil show ?case by simp
next
  case (Cons i xs)
  then have "k \<noteq> i" "k \<notin> set xs" by auto
  then show ?case using Cons.IH [of "collideParticle collisionHandler i s"]
    by (simp add: collideParticle_other)
qed

lemma computeCollisions_skips_last:
  assumes "0 < length (positions s)" and "length (positions s) < 2 ^ 64"
  shows "positions (computeCollisions collisionHandler s) ! (length (positions s) - 1)
           = positions s ! (length (positions s) - 1)
         \<and> velocities (computeCollisions collisionHandler s) ! (length (positions s) - 1)
           = velocities s ! (length (positions s) - 1)"
proof -
  have "int (length (positions s)) - 1 < 2 ^ 64" "0 \<le> int (length (positions s)) - 1"
    using assms by simp_all
  then have "(int (length (positions s)) - 1) mod 2 ^ 64 = int (length (positions s)) - 1"
    by (intro mod_pos_pos_trivial)
  then have b: "to_size_t (int (length (positions s)) - 1) = length (positions s) - 1"
    using assms by (simp add: to_size_t_def)
  show ?thesis
    unfolding computeCollisions_def b
    by (rule fold_collide_other) simp
qed

text \<open>
  C1. Two particles outside the unit box, left and right of it: the collision pass puts the
  first on the face \<open>x = 0\<close> and reflects its velocity, and never looks at the last one,
  which stays at \<open>x = 2\<close> outside the box.
\<close>

theorem C1_last_particle_skipped:
  "positions (computeCollisions collisionHandler
      (exampleState [Vector3f (- 1) (1 / 2) (1 / 2), Vector3f 2 (1 / 2) (1 / 2)]
                    [Vector3f (- 1) 0 0, Vector3f 1 0 0]))
     = [Vector3f 0 (1 / 2) (1 / 2), Vector3f 2 (1 / 2) (1 / 2)]
   \<and> velocities (computeCollisions collisionHandler
      (exampleState [Vector3f (- 1) (1 / 2) (1 / 2), Vector3f 2 (1 / 2) (1 / 2)]
                    [Vector3f (- 1) 0 0, Vector3f 1 0 0]))
     = [Vector3f (1 / 2) 0 0, Vector3f 1 0 0]
   \<and> vx (box_max (bounds (exampleState [Vector3f (- 1) (1 / 2) (1 / 2), Vector3f 2 (1 / 2) (1 / 2)]
                    [Vector3f (- 1) 0 0, Vector3f 1 0 0]))) < 2"
  by (simp add: computeCollisions_def to_size_t_def collideParticle_def collideFace_def
      collisionHandler_def exampleState_def unitBox_def vadd_def vsub_def vscale_def dot_def Let_def)


section \<open>Settings and the step\<close>

lemma fold_commute_update:
  assumes "\<And>i s. f i (u s) = u (f i s)"
  shows "fold f xs (u s) = u (fold f xs s)"
  by (induction xs arbitrary: s) (simp_all add: assms)

lemma gridStage_settings:
  "gridStage (s\<lparr>settings := st\<rparr>) = map_option (\<lambda>s'. s'\<lparr>settings := st\<rparr>) (gridStage s)"
  by (cases "gridPlan (grid s) (positions s)") (auto simp: gridStage_plan)

lemma iterateNeighbours_settings [simp]:
  "iterateNeighbours (s\<lparr>settings := st\<rparr>) p func acc = iterateNeighbours s p func acc"
  by (simp add: iterateNeighbours_def cong: if_cong)

lemma computeDensityTask_settings:
  "computeDensityTask i (s\<lparr>settings := st\<rparr>) = (computeDensityTask i s)\<lparr>settings := st\<rparr>"
  by (simp add: computeDensityTask_def Let_def)

lemma computeDensity_settings:
  "computeDensity (s\<lparr>settings := st\<rparr>) = (computeDensity s)\<lparr>settings := st\<rparr>"
  unfolding computeDensity_def iterate_def
  using fold_commute_update [of computeDensityTask "\<lambda>s. s\<lparr>settings := st\<rparr>", OF computeDensityTask_settings]
  by simp

lemma computeNormalsTask_settings:
  "computeNormalsTask i (s\<lparr>settings := st\<rparr>) = (computeNormalsTask i s)\<lparr>settings := st\<rparr>"
  by (simp add: computeNormalsTask_def Let_def)

lemma computeNormals_settings:
  "computeNormals (s\<lparr>settings := st\<rparr>) = (computeNormals s)\<lparr>settings := st\<rparr>"
  unfolding computeNormals_def iterate_def
  using fold_commute_update [of computeNormalsTask "\<lambda>s. s\<lparr>settings := st\<rparr>", OF computeNormalsTask_settings]
  by simp

lemma forceVisit_settings:
  "forceVisit i j (a, s\<lparr>settings := st\<rparr>)
     = (fst (forceVisit i j (a, s)), (snd (forceVisit i j (a, s)))\<lparr>settings := st\<rparr>)"
  by (simp add: forceVisit_def Let_def accumulatePair_def pressureTerm_def correctionFactor_def)

lemma fold_forceVisit_settings:
  "fold (forceVisit i) js (a, s\<lparr>settings := st\<rparr>)
     = (fst (fold (forceVisit i) js (a, s)), (snd (fold (forceVisit i) js (a, s)))\<lparr>settings := st\<rparr>)"
proof (induction js arbitrary: a s)
  case Nil show ?case by simp
next
  case (Cons j js)
  show ?case
    by (simp add: forceVisit_settings Cons.IH [of "fst (forceVisit i j (a, s))" "snd (forceVisit i j (a, s))", simplified])
qed

lemma computeForcesTask_settings:
  assumes "gravity st = gravity (settings s)"
  shows "computeForcesTask i (s\<lparr>settings := st\<rparr>) = (computeForcesTask i s)\<lparr>settings := st\<rparr>"
proof -
  let ?js = "lookup (grid s) (positions s ! i) (sph_h s)"
  have "settings (snd (fold (forceVisit i) ?js (ForceAcc_init, s))) = settings s"
    by (rule frameEq_fields(6) [OF fold_forceVisit_frame])
  then show ?thesis
    using assms by (simp add: computeForcesTask_def Let_def fold_forceVisit_settings)
qed

lemma fold_tasks_settings:
  assumes "gravity st = gravity (settings s)"
  shows "fold computeForcesTask is (s\<lparr>settings := st\<rparr>) = (fold computeForcesTask is s)\<lparr>settings := st\<rparr>"
  using assms
proof (induction "is" arbitrary: s)
  case Nil show ?case by simp
next
  case (Cons i "is")
  have "settings (computeForcesTask i s) = settings s"
    by (rule frameEq_fields(6) [OF computeForcesTask_frame])
  then have "fold computeForcesTask is ((computeForcesTask i s)\<lparr>settings := st\<rparr>)
             = (fold computeForcesTask is (computeForcesTask i s))\<lparr>settings := st\<rparr>"
    using Cons.prems by (intro Cons.IH) simp
  then show ?case using Cons.prems by (simp add: computeForcesTask_settings)
qed

lemma computeForces_settings:
  assumes "gravity st = gravity (settings s)"
  shows "computeForces (s\<lparr>settings := st\<rparr>) = (computeForces s)\<lparr>settings := st\<rparr>"
  using fold_tasks_settings [OF assms] by (simp add: computeForces_def iterate_def)

lemma advanceSettings_settings:
  "advanceSettings dt (s\<lparr>settings := st\<rparr>)
     = (advanceSettings dt s)\<lparr>settings := st\<lparr>gravity := Vector3f 0 (- 9.81) 0\<rparr>\<rparr>"
  by (simp add: advanceSettings_def Let_def)

lemma advanceSettings_gravity:
  "gravity (settings (advanceSettings dt s)) = Vector3f 0 (- 9.81) 0"
  by (simp add: advanceSettings_def Let_def)

lemma density_normals_settings:
  "settings (computeNormals (computeDensity s)) = settings s"
proof -
  have a: "\<And>i s. settings (computeDensityTask i s) = settings s"
    by (simp add: computeDensityTask_def Let_def)
  have b: "\<And>i s. settings (computeNormalsTask i s) = settings s"
    by (simp add: computeNormalsTask_def Let_def)
  have a': "\<And>xs s. settings (fold computeDensityTask xs s) = settings s"
  proof -
    fix xs s show "settings (fold computeDensityTask xs s) = settings s"
      by (induction xs arbitrary: s) (simp_all add: a)
  qed
  have b': "\<And>xs s. settings (fold computeNormalsTask xs s) = settings s"
  proof -
    fix xs s show "settings (fold computeNormalsTask xs s) = settings s"
      by (induction xs arbitrary: s) (simp_all add: b)
  qed
  show ?thesis by (simp add: computeNormals_def computeDensity_def iterate_def a' b')
qed

lemma gridStage_keeps_settings: "gridStage s = Some s' \<Longrightarrow> settings s' = settings s"
  by (cases "gridPlan (grid s) (positions s)") (auto simp: gridStage_plan)

lemma forceStage_settings:
  "forceStage dt (s\<lparr>settings := st\<rparr>)
     = map_option (\<lambda>s'. s'\<lparr>settings := st\<lparr>gravity := Vector3f 0 (- 9.81) 0\<rparr>\<rparr>) (forceStage dt s)"
proof (cases "gridStage (advanceSettings dt s)")
  case None
  then show ?thesis
    by (simp add: forceStage_def advanceSettings_settings gridStage_settings)
next
  case (Some s1)
  let ?st = "st\<lparr>gravity := Vector3f 0 (- 9.81) 0\<rparr>"
  have "settings s1 = settings (advanceSettings dt s)" by (rule gridStage_keeps_settings [OF Some])
  then have g: "gravity ?st = gravity (settings (computeNormals (computeDensity s1)))"
    by (simp add: density_normals_settings advanceSettings_gravity)
  show ?thesis
    using computeForces_settings [OF g]
    by (simp add: forceStage_def advanceSettings_settings gridStage_settings Some
        computeDensity_settings computeNormals_settings)
qed

lemma integrateTask_settings:
  "integrateTask invM dt i (s\<lparr>settings := st\<rparr>) = (integrateTask invM dt i s)\<lparr>settings := st\<rparr>"
  by (simp add: integrateTask_def Let_def)

lemma collisionHandler_settings:
  "collisionHandler i n d (s\<lparr>settings := st\<rparr>) = (collisionHandler i n d s)\<lparr>settings := st\<rparr>"
  by (simp add: collisionHandler_def)

lemma collideFace_settings:
  "collideFace collisionHandler i outside n depth (s\<lparr>settings := st\<rparr>)
     = (collideFace collisionHandler i outside n depth s)\<lparr>settings := st\<rparr>"
  by (simp add: collideFace_def collisionHandler_settings)

lemma collideParticle_settings:
  "collideParticle collisionHandler i (s\<lparr>settings := st\<rparr>)
     = (collideParticle collisionHandler i s)\<lparr>settings := st\<rparr>"
  by (simp add: collideParticle_def Let_def collideFace_settings)

lemma collideFace_length:
  "length (positions (collideFace collisionHandler i outside n depth s)) = length (positions s)"
  by (simp add: collideFace_def collisionHandler_def)

lemma computeCollisions_settings:
  "computeCollisions collisionHandler (s\<lparr>settings := st\<rparr>)
     = (computeCollisions collisionHandler s)\<lparr>settings := st\<rparr>"
  unfolding computeCollisions_def
  using fold_commute_update [of "collideParticle collisionHandler" "\<lambda>s. s\<lparr>settings := st\<rparr>",
      OF collideParticle_settings]
  by simp

lemma integrate_settings:
  "iterate n (integrateTask invM dt) (s\<lparr>settings := st\<rparr>)
     = (iterate n (integrateTask invM dt) s)\<lparr>settings := st\<rparr>"
  unfolding iterate_def
  using fold_commute_update [of "integrateTask invM dt" "\<lambda>s. s\<lparr>settings := st\<rparr>",
      OF integrateTask_settings]
  by simp

lemma update_settings:
  "update dt (s\<lparr>settings := st\<rparr>)
     = map_option (\<lambda>s'. s'\<lparr>settings := st\<lparr>gravity := Vector3f 0 (- 9.81) 0\<rparr>\<rparr>) (update dt s)"
  by (cases "forceStage dt s")
     (simp_all add: update_def forceStage_settings integrate_settings computeCollisions_settings)


lemma fold_preserves:
  assumes "\<And>i s. g (f i s) = g s"
  shows "g (fold f xs s) = g s"
  by (induction xs arbitrary: s) (simp_all add: assms)

lemma sorted_from_steps:
  assumes "\<forall>c<n. (offs :: nat list) ! c \<le> offs ! (c + 1)" and "length offs = n + 1"
  shows "sorted offs"
proof -
  have "\<And>i j. i \<le> j \<Longrightarrow> j < length offs \<Longrightarrow> offs ! i \<le> offs ! j"
    using offs_mono_aux [OF assms(1)] assms(2) by simp
  then show ?thesis by (simp add: sorted_iff_nth_mono)
qed

lemma gridStage_result:
  assumes "grid_ok (grid s)" and "validCells (grid s) (positions s)"
  shows "\<exists>s' P V offs. gridStage s = Some s'
          \<and> s' = s\<lparr>positions := P, velocities := V, grid := (grid s)\<lparr>cellOffset := offs\<rparr>\<rparr>
          \<and> mset P = mset (positions s)
          \<and> grid_ok (grid s') \<and> sorted (cellOffset (grid s'))
          \<and> last (cellOffset (grid s')) = length (positions s)"
proof -
  let ?g = "grid s" and ?ps = "positions s"
  let ?n = "to_size_t (sizeProd ?g)"
  from gridPlan_correct [OF assms]
  obtain offs inds' tr where
    plan: "gridPlan ?g ?ps = Some (offs, inds', tr)"
    and o1: "length offs = ?n + 1" and o3: "offs ! ?n = length ?ps"
    and mono: "\<forall>c<?n. offs ! c \<le> offs ! (c + 1)"
    and rng: "\<forall>(a, b) \<in> set tr. a < length ?ps \<and> b < length ?ps"
    by blast
  let ?s' = "s\<lparr>positions := swapsOn tr ?ps, velocities := swapsOn tr (velocities s),
                grid := ?g\<lparr>cellOffset := offs\<rparr>\<rparr>"
  have st: "gridStage s = Some ?s'" by (simp add: gridStage_plan plan)
  have ms: "mset (swapsOn tr ?ps) = mset ?ps" by (rule mset_swapsOn [OF rng])
  have srt: "sorted offs" by (rule sorted_from_steps [OF mono o1])
  have lastoff: "last offs = length ?ps"
    using o1 o3 by (simp add: last_conv_nth [of offs] length_greater_0_conv [symmetric] del: length_greater_0_conv)
  have ok: "grid_ok (?g\<lparr>cellOffset := offs\<rparr>)"
    using assms(1) o1 grid_ok_sizes [OF assms(1)] by (simp add: grid_ok_def sizeProd_def)
  show ?thesis
    using st ms srt lastoff ok by auto
qed

lemma forceVisit_self: "forceVisit i i as = as"
  by (simp add: forceVisit_def Let_def)

lemma fold_forceVisit_self: "\<forall>j \<in> set js. j = i \<Longrightarrow> fold (forceVisit i) js as = as"
  by (induction js arbitrary: as) (simp_all add: forceVisit_self)

lemma vadd_zero_left [simp]: "vadd (Vector3f 0 0 0) a = a"
  by (simp add: vadd_def)

lemma vadd_zero_right [simp]: "vadd a (Vector3f 0 0 0) = a"
  by (simp add: vadd_def)

lemma vscale_zero [simp]: "vscale c (Vector3f 0 0 0) = Vector3f 0 0 0"
  by (simp add: vscale_def)

lemma single_particle_force:
  assumes ok: "grid_ok (grid s)" and srt: "sorted (cellOffset (grid s))"
    and lst: "last (cellOffset (grid s)) \<le> 1"
    and n: "length (positions s) = 1" and f: "length (forces s) = 1"
  shows "forces (computeForces s) = [vscale (particleMass s) (gravity (settings s))]"
proof -
  let ?js = "lookup (grid s) (positions s ! 0) (sph_h s)"
  have "\<forall>j \<in> set ?js. j = 0"
    using lookup_bound [OF ok srt lst] by auto
  then have fold: "fold (forceVisit 0) ?js (ForceAcc_init, s) = (ForceAcc_init, s)"
    by (rule fold_forceVisit_self)
  have "computeForces s = computeForcesTask 0 s"
    by (simp add: computeForces_def iterate_def n)
  also have "forces (computeForcesTask 0 s)
             = (forces s)[0 := vscale (particleMass s) (gravity (settings s))]"
    unfolding computeForcesTask_def Let_def fold
    by (simp add: ForceAcc_init_def Vector3f_default_def splat_def)
  finally show ?thesis using f by (cases "forces s") simp_all
qed

lemma density_normals_frame:
  "positions (computeNormals (computeDensity s)) = positions s"
  "grid (computeNormals (computeDensity s)) = grid s"
  "forces (computeNormals (computeDensity s)) = forces s"
  "particleMass (computeNormals (computeDensity s)) = particleMass s"
proof -
  have d: "\<And>xs s. positions (fold computeDensityTask xs s) = positions s"
    "\<And>xs s. grid (fold computeDensityTask xs s) = grid s"
    "\<And>xs s. forces (fold computeDensityTask xs s) = forces s"
    "\<And>xs s. particleMass (fold computeDensityTask xs s) = particleMass s"
    by (rule fold_preserves, simp add: computeDensityTask_def Let_def)+
  have m: "\<And>xs s. positions (fold computeNormalsTask xs s) = positions s"
    "\<And>xs s. grid (fold computeNormalsTask xs s) = grid s"
    "\<And>xs s. forces (fold computeNormalsTask xs s) = forces s"
    "\<And>xs s. particleMass (fold computeNormalsTask xs s) = particleMass s"
    by (rule fold_preserves, simp add: computeNormalsTask_def Let_def)+
  show "positions (computeNormals (computeDensity s)) = positions s"
    "grid (computeNormals (computeDensity s)) = grid s"
    "forces (computeNormals (computeDensity s)) = forces s"
    "particleMass (computeNormals (computeDensity s)) = particleMass s"
    by (simp_all add: computeNormals_def computeDensity_def iterate_def d m)
qed

lemma integrate_collide_forces:
  "forces (computeCollisions collisionHandler (iterate n (integrateTask invM dt) s)) = forces s"
proof -
  have a: "\<And>xs s. forces (fold (integrateTask invM dt) xs s) = forces s"
    by (rule fold_preserves) (simp add: integrateTask_def Let_def)
  have c: "\<And>i s. forces (collideParticle collisionHandler i s) = forces s"
    by (simp add: collideParticle_def Let_def collideFace_def collisionHandler_def)
  have b: "\<And>xs s. forces (fold (collideParticle collisionHandler) xs s) = forces s"
    by (rule fold_preserves) (rule c)
  show ?thesis by (simp add: computeCollisions_def iterate_def a b)
qed

lemma single_particle_update:
  assumes ok: "grid_ok (grid s)" and v: "validCells (grid s) (positions s)"
    and n: "length (positions s) = 1" and f: "length (forces s) = 1"
  shows "\<exists>s'. update dt s = Some s'
           \<and> forces s' = [vscale (particleMass s) (Vector3f 0 (- 9.81) 0)]"
proof -
  let ?s0 = "advanceSettings dt s"
  have e: "grid ?s0 = grid s" "positions ?s0 = positions s" "forces ?s0 = forces s"
    "particleMass ?s0 = particleMass s"
    by (simp_all add: advanceSettings_def Let_def)
  from gridStage_result [of ?s0] ok v e
  obtain s1 P V offs where
    g: "gridStage ?s0 = Some s1"
    and s1: "s1 = ?s0\<lparr>positions := P, velocities := V, grid := (grid ?s0)\<lparr>cellOffset := offs\<rparr>\<rparr>"
    and ms: "mset P = mset (positions s)"
    and ok1: "grid_ok (grid s1)" and srt1: "sorted (cellOffset (grid s1))"
    and lst1: "last (cellOffset (grid s1)) = length (positions s)"
    by auto
  have lp: "length P = 1" using ms n by (metis size_mset)
  let ?s2 = "computeNormals (computeDensity s1)"
  have f2: "positions ?s2 = P" "grid ?s2 = grid s1" "forces ?s2 = forces s"
    "particleMass ?s2 = particleMass s" "settings ?s2 = settings ?s0"
    using e by (simp_all add: density_normals_frame density_normals_settings s1)
  have "forces (computeForces ?s2) = [vscale (particleMass ?s2) (gravity (settings ?s2))]"
    using ok1 srt1 lst1 lp f n by (intro single_particle_force) (simp_all add: f2)
  then have fr: "forces (computeForces ?s2) = [vscale (particleMass s) (Vector3f 0 (- 9.81) 0)]"
    by (simp add: f2 advanceSettings_gravity)
  have "forceStage dt s = Some (computeForces ?s2)" by (simp add: forceStage_def g)
  then show ?thesis
    by (simp add: update_def integrate_collide_forces fr)
qed


lemma frameEq_masses:
  assumes "frameEq s s'"
  shows "particleMass2 s' = particleMass2 s" and "sph_h2 s' = sph_h2 s"
proof -
  from assms obtain P F where a: "s' = s\<lparr>positions := P, forces := F\<rparr>" by (rule frameEqE)
  show "particleMass2 s' = particleMass2 s" "sph_h2 s' = sph_h2 s" unfolding a by simp_all
qed

lemma fold_tasks_others:
  "i \<notin> set is \<Longrightarrow> forces (fold computeForcesTask is s) ! i = forces s ! i"
proof (induction "is" arbitrary: s)
  case Nil show ?case by simp
next
  case (Cons k "is")
  then have "i \<noteq> k" "i \<notin> set is" by auto
  then show ?case
    using Cons.IH [of "computeForcesTask k s"] computeForcesTask_others [of i k s] by simp
qed

lemma computeForcesTask_own:
  assumes "i < length (forces s)"
  shows "forces (computeForcesTask i s) ! i
         = vadd (vadd (force (taskAccumulators s i))
                   (vadd (vadd (vscale (1 * particleMass2 s * surfaceTensionConstant (kernel s))
                                  (forceCohesion (taskAccumulators s i)))
                               (vscale (1 * particleMass s) (forceCurvature (taskAccumulators s i))))
                         (vscale (0.0001 * particleMass s * viscosityLaplaceConstant (kernel s))
                            (forceViscosity (taskAccumulators s i)))))
                (vscale (particleMass s) (gravity (settings s)))"
proof -
  let ?as = "fold (forceVisit i) (lookup (grid s) (positions s ! i) (sph_h s)) (ForceAcc_init, s)"
  have f: "frameEq s (snd ?as)" by (rule fold_forceVisit_frame)
  note e = frameEq_fields [OF f] frameEq_masses [OF f]
  have "i < length (forces (snd ?as))" using assms e by simp
  then show ?thesis
    unfolding computeForcesTask_def Let_def taskAccumulators_def
    by (simp add: e)
qed

lemma computeForces_own:
  assumes "i < length (positions s)" and "i < length (forces s)"
  shows "forces (computeForces s) ! i = forces (computeForcesTask i (stateBeforeTask s i)) ! i"
proof -
  have "[0..<length (positions s)] = [0..<i] @ i # [Suc i..<length (positions s)]"
    using assms(1) by (metis le0 upt_add_eq_append upt_conv_Cons le_add_diff_inverse less_imp_le_nat add_0)
  then have "computeForces s
             = fold computeForcesTask [Suc i..<length (positions s)]
                 (computeForcesTask i (stateBeforeTask s i))"
    by (simp add: computeForces_def iterate_def stateBeforeTask_def)
  then show ?thesis by (simp add: fold_tasks_others)
qed

lemma taskAccumulators_settings:
  "taskAccumulators (s\<lparr>settings := st\<rparr>) i = taskAccumulators s i"
  by (simp add: taskAccumulators_def fold_forceVisit_settings)

text \<open>
  C3. After the force pass the force entry of particle \<open>i\<close> is the \<open>force\<close> accumulator of
  its task, plus the cohesion, curvature and viscosity accumulators scaled by
  \<open>particleMass2\<close> times the surface-tension constant, by \<open>particleMass\<close>, and by the
  constant 0.0001 times \<open>particleMass\<close> times the viscosity-Laplacian constant, plus
  \<open>particleMass\<close> times the gravity setting of the state the pass runs on; the
  accumulators do not depend on the settings. In \<open>update\<close> the pass runs on a state whose
  gravity setting is \<open>(0, -9.81, 0)\<close>, whatever was written before: \<open>update\<close> does the same
  with and without written settings, except that it hands the written stiffness and
  viscosity through, and its forces do not depend on the written gravity or viscosity.
\<close>

theorem C3_settings_overwritten:
  "(\<forall>i. i < length (positions s) \<and> i < length (forces s) \<longrightarrow>
      forces (computeForces s) ! i
        = vadd (vadd (force (taskAccumulators (stateBeforeTask s i) i))
                  (vadd (vadd (vscale (1 * particleMass2 s * surfaceTensionConstant (kernel s))
                                 (forceCohesion (taskAccumulators (stateBeforeTask s i) i)))
                              (vscale (1 * particleMass s)
                                 (forceCurvature (taskAccumulators (stateBeforeTask s i) i))))
                        (vscale (0.0001 * particleMass s * viscosityLaplaceConstant (kernel s))
                           (forceViscosity (taskAccumulators (stateBeforeTask s i) i)))))
               (vscale (particleMass s) (gravity (settings s))))
   \<and> (\<forall>i. taskAccumulators (s\<lparr>settings := st\<rparr>) i = taskAccumulators s i)
   \<and> (\<forall>s1. gridStage (advanceSettings dt s) = Some s1 \<longrightarrow>
          forceStage dt s = Some (computeForces (computeNormals (computeDensity s1)))
          \<and> gravity (settings (computeNormals (computeDensity s1))) = Vector3f 0 (- 9.81) 0)
   \<and> update dt (s\<lparr>settings := st\<rparr>)
       = map_option (\<lambda>s'. s'\<lparr>settings := st\<lparr>gravity := Vector3f 0 (- 9.81) 0\<rparr>\<rparr>) (update dt s)
   \<and> map_option forces (forceStage dt (s\<lparr>settings := st\<rparr>)) = map_option forces (forceStage dt s)
   \<and> map_option forces (update dt (s\<lparr>settings := st\<rparr>)) = map_option forces (update dt s)
   \<and> forces (computeForces (s\<lparr>settings := (settings s)\<lparr>viscosity := v\<rparr>\<rparr>)) = forces (computeForces s)"
proof -
  have p: "\<forall>i. i < length (positions s) \<and> i < length (forces s) \<longrightarrow>
      forces (computeForces s) ! i
        = vadd (vadd (force (taskAccumulators (stateBeforeTask s i) i))
                  (vadd (vadd (vscale (1 * particleMass2 s * surfaceTensionConstant (kernel s))
                                 (forceCohesion (taskAccumulators (stateBeforeTask s i) i)))
                              (vscale (1 * particleMass s)
                                 (forceCurvature (taskAccumulators (stateBeforeTask s i) i))))
                        (vscale (0.0001 * particleMass s * viscosityLaplaceConstant (kernel s))
                           (forceViscosity (taskAccumulators (stateBeforeTask s i) i)))))
               (vscale (particleMass s) (gravity (settings s)))"
  proof (intro allI impI)
    fix i assume i: "i < length (positions s) \<and> i < length (forces s)"
    let ?si = "stateBeforeTask s i"
    have f: "frameEq s ?si" by (rule stateBeforeTask_frame)
    note e = frameEq_fields [OF f] frameEq_masses [OF f]
    have li: "i < length (forces ?si)" using i e by simp
    show "forces (computeForces s) ! i
        = vadd (vadd (force (taskAccumulators ?si i))
                  (vadd (vadd (vscale (1 * particleMass2 s * surfaceTensionConstant (kernel s))
                                 (forceCohesion (taskAccumulators ?si i)))
                              (vscale (1 * particleMass s) (forceCurvature (taskAccumulators ?si i))))
                        (vscale (0.0001 * particleMass s * viscosityLaplaceConstant (kernel s))
                           (forceViscosity (taskAccumulators ?si i)))))
               (vscale (particleMass s) (gravity (settings s)))"
      using computeForces_own [of i s] computeForcesTask_own [OF li] i
      by (simp add: e)
  qed
  have q: "\<forall>s1. gridStage (advanceSettings dt s) = Some s1 \<longrightarrow>
          forceStage dt s = Some (computeForces (computeNormals (computeDensity s1)))
          \<and> gravity (settings (computeNormals (computeDensity s1))) = Vector3f 0 (- 9.81) 0"
  proof (intro allI impI)
    fix s1 assume g: "gridStage (advanceSettings dt s) = Some s1"
    have "settings s1 = settings (advanceSettings dt s)" by (rule gridStage_keeps_settings [OF g])
    then show "forceStage dt s = Some (computeForces (computeNormals (computeDensity s1)))
          \<and> gravity (settings (computeNormals (computeDensity s1))) = Vector3f 0 (- 9.81) 0"
      using g by (simp add: forceStage_def density_normals_settings advanceSettings_gravity)
  qed
  have a: "map_option forces (forceStage dt (s\<lparr>settings := st\<rparr>)) = map_option forces (forceStage dt s)"
    by (cases "forceStage dt s") (simp_all add: forceStage_settings)
  have b: "map_option forces (update dt (s\<lparr>settings := st\<rparr>)) = map_option forces (update dt s)"
    by (cases "update dt s") (simp_all add: update_settings)
  have c: "forces (computeForces (s\<lparr>settings := (settings s)\<lparr>viscosity := v\<rparr>\<rparr>)) = forces (computeForces s)"
    by (subst computeForces_settings) simp_all
  show ?thesis using p q update_settings a b c taskAccumulators_settings by blast
qed


lemma neighbour_taskAccumulators:
  "taskAccumulators neighbourState 0 = accumulatePair neighbourState 0 1 ForceAcc_init"
proof -
  have "fold (forceVisit 0) [0, 1] (ForceAcc_init, neighbourState)
        = (fold (accumulatePair neighbourState 0) (filter (contributes neighbourState 0) [0, 1]) ForceAcc_init,
           neighbourState\<lparr>positions := nudgedPositions neighbourState 0 [0, 1]\<rparr>)"
    by (rule fold_forceVisit_char) (simp_all add: neighbourState_fields)
  moreover have "filter (contributes neighbourState 0) [0, 1] = [1]"
    using neighbour_r2 by (simp add: contributes_def neighbourState_fields)
  ultimately show ?thesis
    by (simp add: taskAccumulators_def neighbourState_fields(1,2,4) neighbourGrid_lookup)
qed

theorem C3_settings_overwritten_witness:
  "0 < length (positions (neighbourState\<lparr>settings := \<lparr> stiffness = 3, viscosity = 7, gravity = Vector3f 1 2 3 \<rparr>\<rparr>))
   \<and> 0 < length (forces (neighbourState\<lparr>settings := \<lparr> stiffness = 3, viscosity = 7, gravity = Vector3f 1 2 3 \<rparr>\<rparr>))
   \<and> forces (computeForces (neighbourState\<lparr>settings := \<lparr> stiffness = 3, viscosity = 7, gravity = Vector3f 1 2 3 \<rparr>\<rparr>)) ! 0
       = Vector3f (125 - (7025 / 1152 + 78125 / 19 + 1 / 3200) / pi) (7250 / 19) 375"
proof -
  let ?s = "neighbourState\<lparr>settings := \<lparr> stiffness = 3, viscosity = 7, gravity = Vector3f 1 2 3 \<rparr>\<rparr>"
  have h: "0 < length (positions ?s) \<and> 0 < length (forces ?s)"
    by (simp add: neighbourState_fields)
  have sb: "stateBeforeTask ?s 0 = ?s" by (simp add: stateBeforeTask_def)
  have acc: "taskAccumulators ?s 0 = accumulatePair neighbourState 0 1 ForceAcc_init"
    by (simp add: taskAccumulators_settings neighbour_taskAccumulators)
  from C3_settings_overwritten [of ?s] h
  have "forces (computeForces ?s) ! 0
        = vadd (vadd (force (taskAccumulators (stateBeforeTask ?s 0) 0))
                  (vadd (vadd (vscale (1 * particleMass2 ?s * surfaceTensionConstant (kernel ?s))
                                 (forceCohesion (taskAccumulators (stateBeforeTask ?s 0) 0)))
                              (vscale (1 * particleMass ?s)
                                 (forceCurvature (taskAccumulators (stateBeforeTask ?s 0) 0))))
                        (vscale (0.0001 * particleMass ?s * viscosityLaplaceConstant (kernel ?s))
                           (forceViscosity (taskAccumulators (stateBeforeTask ?s 0) 0)))))
               (vscale (particleMass ?s) (gravity (settings ?s)))"
    by blast
  then have "forces (computeForces ?s) ! 0
       = Vector3f (125 - (7025 / 1152 + 78125 / 19 + 1 / 3200) / pi) (7250 / 19) 375"
    unfolding sb acc neighbour_accumulated
    by (simp add: neighbourState_def exampleState_def Kernel_init_def vadd_def vscale_def field_simps)
  then show ?thesis using h by blast
qed

text \<open>
  One particle in the middle of the unit box, gravity written as zero before the step: the
  force of the step is the particle mass 125 times \<open>(0, -9.81, 0)\<close>.
\<close>

theorem C3_written_gravity_counterexample:
  "gravity (settings (exampleState [Vector3f (1 / 2) (1 / 2) (1 / 2)] [splat 0]
      \<lparr>settings := \<lparr> stiffness = 3, viscosity = 7, gravity = Vector3f 0 0 0 \<rparr>\<rparr>)) = Vector3f 0 0 0
   \<and> (\<exists>s'. update (1 / 1000) (exampleState [Vector3f (1 / 2) (1 / 2) (1 / 2)] [splat 0]
      \<lparr>settings := \<lparr> stiffness = 3, viscosity = 7, gravity = Vector3f 0 0 0 \<rparr>\<rparr>) = Some s'
        \<and> forces s' = [Vector3f 0 (- 1226.25) 0])"
proof -
  let ?s = "exampleState [Vector3f (1 / 2) (1 / 2) (1 / 2)] [splat 0]
      \<lparr>settings := \<lparr> stiffness = 3, viscosity = 7, gravity = Vector3f 0 0 0 \<rparr>\<rparr>"
  have ok: "grid_ok (grid ?s)" by (simp add: exampleState_def unitGrid_ok)
  have "validCells (Grid_init unitBox 1) [Vector3f (1 / 2) (1 / 2) (1 / 2)]"
    unfolding unitGrid by (simp add: validCells_def inGrid_def index_def floorInt_def unitBox_def)
  then have v: "validCells (grid ?s) (positions ?s)"
    by (simp add: exampleState_def)
  have n: "length (positions ?s) = 1" "length (forces ?s) = 1"
    by (simp_all add: exampleState_def)
  have m: "vscale (particleMass ?s) (Vector3f 0 (- 9.81) 0) = Vector3f 0 (- 1226.25) 0"
    by (simp add: exampleState_def vscale_def)
  from single_particle_update [OF ok v n, of "1 / 1000"] m
  have "\<exists>s'. update (1 / 1000) ?s = Some s' \<and> forces s' = [Vector3f 0 (- 1226.25) 0]"
    by simp
  moreover have "gravity (settings ?s) = Vector3f 0 0 0" by (simp add: exampleState_def)
  ultimately show ?thesis by blast
qed

end
